(* ===== verification/Prelude.thy ===== *)
theory Prelude
  imports Main "HOL-Library.Word" "HOL-Library.Char_ord" "HOL-Library.List_Lexorder"
begin

text \<open>
  Shared vocabulary of the development: the widths of the Go integers the program uses, the
  standard-library string operations it calls (\<^verbatim>\<open>strings.Split\<close>,
  \<^verbatim>\<open>strings.HasPrefix\<close>), and the lemmas on lists, words and split strings that several
  components need. A Go string is a byte sequence, so it is a \<^typ>\<open>string\<close> (a list of bytes)
  and \<^verbatim>\<open>len\<close> is \<^const>\<open>length\<close>.
\<close>

named_theorems go_split \<open>facts about strings.Split and the joined form of its result\<close>
named_theorems int_width \<open>facts that carry signed values between widths\<close>

type_synonym int32 = "32 word"
type_synonym int64 = "64 word"

section \<open>Signed machine integers\<close>

text \<open>
  Go compares \<^verbatim>\<open>int32\<close> and \<^verbatim>\<open>int64\<close> values as signed numbers, which \<^const>\<open>sint\<close>
  reads. The conversions \<^verbatim>\<open>int64(n)\<close> and \<^verbatim>\<open>int32(n)\<close> are \<^const>\<open>scast\<close>: widening keeps
  the value, narrowing keeps the low 32 bits.
\<close>

abbreviation int64_of :: "int32 \<Rightarrow> int64" where
  "int64_of n \<equiv> scast n"

abbreviation int32_of :: "int64 \<Rightarrow> int32" where
  "int32_of n \<equiv> scast n"

lemma sint_int64_of [simp, int_width]: "sint (int64_of n) = sint n"
  by (rule sint_up_scast) (simp add: is_up)

lemma signed_take_bit_small:
  fixes x :: int
  assumes "- (2 ^ n) \<le> x" and "x < 2 ^ n"
  shows "signed_take_bit n x = x"
  using assms by (simp add: signed_take_bit_int_eq_self)

lemma sint_int32_of [int_width]:
  assumes "- (2 ^ 31) \<le> sint n" and "sint n < 2 ^ 31"
  shows "sint (int32_of n) = sint n"
  using assms by (simp add: signed_scast_eq signed_take_bit_small)

lemma int32_range [int_width]: "- (2 ^ 31) \<le> sint n \<and> sint n < 2 ^ 31" for n :: int32
  using sint_range_size [of n] by (simp add: word_size)

lemma sint_word_of_int32 [int_width]: "- (2 ^ 31) \<le> i \<Longrightarrow> i < 2 ^ 31 \<Longrightarrow> sint (word_of_int i :: int32) = i"
  by (simp add: sint_sbintrunc' signed_take_bit_small)

lemma int32_of_int64_of [simp, int_width]: "int32_of (int64_of n) = n"
proof (rule signed_word_eqI)
  show "sint (int32_of (int64_of n)) = sint n"
    using int32_range [of n] by (simp add: sint_int32_of)
qed

lemma int64_of_int32_of [int_width]:
  assumes "- (2 ^ 31) \<le> sint n" and "sint n < 2 ^ 31"
  shows "int64_of (int32_of n) = n"
proof (rule signed_word_eqI)
  show "sint (int64_of (int32_of n)) = sint n"
    using assms by (simp add: sint_int32_of)
qed

lemma int64_of_inject [simp]: "int64_of m = int64_of n \<longleftrightarrow> m = n"
  by (metis int32_of_int64_of)

section \<open>strings.Split and strings.HasPrefix\<close>

fun split_on :: "char \<Rightarrow> string \<Rightarrow> string list" where
  "split_on c [] = [[]]"
| "split_on c (x # xs) =
     (if x = c then [] # split_on c xs
      else (case split_on c xs of [] \<Rightarrow> [[x]] | p # ps \<Rightarrow> (x # p) # ps))"

fun join_on :: "char \<Rightarrow> string list \<Rightarrow> string" where
  "join_on c [] = []"
| "join_on c [p] = p"
| "join_on c (p # q # ps) = p @ c # join_on c (q # ps)"

lemma split_on_not_Nil [simp, go_split]: "split_on c s \<noteq> []"
  by (cases s) (auto split: list.splits)

lemma split_on_length [go_split]: "length (split_on c s) = Suc (count_list s c)"
  by (induction s) (auto split: list.splits)

lemma split_on_parts [go_split]: "p \<in> set (split_on c s) \<Longrightarrow> c \<notin> set p"
  by (induction s arbitrary: p) (fastforce split: list.splits if_splits)+

lemma split_on_chars: "p \<in> set (split_on c s) \<Longrightarrow> set p \<subseteq> set s"
  by (induction s arbitrary: p) (fastforce split: list.splits if_splits)+

lemma split_on_fresh [simp, go_split]: "c \<notin> set s \<Longrightarrow> split_on c s = [s]"
  by (induction s) auto

lemma split_on_append [simp, go_split]: "c \<notin> set p \<Longrightarrow> split_on c (p @ c # q) = p # split_on c q"
  by (induction p) auto

lemma join_split [simp, go_split]: "join_on c (split_on c s) = s"
proof (induction s)
  case Nil
  then show ?case by simp
next
  case (Cons x xs)
  obtain p ps where ps: "split_on c xs = p # ps"
    by (cases "split_on c xs") auto
  with Cons show ?case by (cases ps) auto
qed

lemma split_on_two [go_split]:
  assumes "split_on c s = [p, q]"
  shows "s = p @ c # q" and "c \<notin> set p" and "c \<notin> set q"
  using join_split [of c s] split_on_parts [of p c s] split_on_parts [of q c s] assms by auto

definition HasPrefix :: "string \<Rightarrow> string \<Rightarrow> bool" where
  "HasPrefix s p \<longleftrightarrow> take (length p) s = p"

section \<open>Results\<close>

text \<open>
  A Go result \<^verbatim>\<open>(T, error)\<close> is a sum whose left side is the error. \<open>is_ok\<close> names success.
\<close>

fun is_ok :: "'e + 'a \<Rightarrow> bool" where
  "is_ok (Inl _) = False"
| "is_ok (Inr _) = True"

lemma is_ok_iff: "is_ok r \<longleftrightarrow> (\<exists>x. r = Inr x)"
  by (cases r) auto

lemma sint_eq [int_width]: "sint a = sint b \<longleftrightarrow> a = b"
  by (metis signed_word_eqI)

lemma map_sum_id_iff:
  "map_sum id f r = Inr y \<longleftrightarrow> (\<exists>x. r = Inr x \<and> y = f x)" "map_sum id f r = Inl e \<longleftrightarrow> r = Inl e"
  by (cases r; auto)+

text \<open>A call that returns or panics.\<close>

datatype 'a outcome = Returned 'a | Panicked

end
