(* ===== verification/Go_Regexp.thy ===== *)
theory Go_Regexp
  imports Prelude
begin

text \<open>
  The part of Go's \<^verbatim>\<open>regexp\<close> package that \<^verbatim>\<open>internal/model\<close> uses: expressions built from byte
  classes, concatenation, option and star, matched against the whole text (the pattern of the
  program is anchored with \<^verbatim>\<open>^\<close> and \<^verbatim>\<open>$\<close>). \<open>MatchString\<close> runs by derivatives;
  \<open>matches\<close> is the textbook meaning it agrees with. The classes are ASCII ranges, so matching
  bytes and matching runes accept the same strings.
\<close>

datatype regex =
    RNever
  | REmpty
  | RClass "(char \<times> char) list"
  | RCat regex regex
  | RAlt regex regex
  | RStar regex

definition ROpt :: "regex \<Rightarrow> regex" where
  "ROpt r = RAlt REmpty r"

definition in_class :: "char \<Rightarrow> (char \<times> char) list \<Rightarrow> bool" where
  "in_class c rs \<longleftrightarrow> list_ex (\<lambda>(lo, hi). (of_char lo :: nat) \<le> of_char c \<and> (of_char c :: nat) \<le> of_char hi) rs"

fun accepts_empty :: "regex \<Rightarrow> bool" where
  "accepts_empty RNever = False"
| "accepts_empty REmpty = True"
| "accepts_empty (RClass _) = False"
| "accepts_empty (RCat r q) = (accepts_empty r \<and> accepts_empty q)"
| "accepts_empty (RAlt r q) = (accepts_empty r \<or> accepts_empty q)"
| "accepts_empty (RStar _) = True"

fun after_byte :: "char \<Rightarrow> regex \<Rightarrow> regex" where
  "after_byte c RNever = RNever"
| "after_byte c REmpty = RNever"
| "after_byte c (RClass rs) = (if in_class c rs then REmpty else RNever)"
| "after_byte c (RCat r q) =
     (if accepts_empty r then RAlt (RCat (after_byte c r) q) (after_byte c q)
      else RCat (after_byte c r) q)"
| "after_byte c (RAlt r q) = RAlt (after_byte c r) (after_byte c q)"
| "after_byte c (RStar r) = RCat (after_byte c r) (RStar r)"

fun MatchString :: "regex \<Rightarrow> string \<Rightarrow> bool" where
  "MatchString r [] = accepts_empty r"
| "MatchString r (c # cs) = MatchString (after_byte c r) cs"

inductive matches :: "regex \<Rightarrow> string \<Rightarrow> bool" where
  empty: "matches REmpty []"
| byte: "in_class c rs \<Longrightarrow> matches (RClass rs) [c]"
| cat: "matches r s \<Longrightarrow> matches q t \<Longrightarrow> matches (RCat r q) (s @ t)"
| alt_left: "matches r s \<Longrightarrow> matches (RAlt r q) s"
| alt_right: "matches q s \<Longrightarrow> matches (RAlt r q) s"
| star_none: "matches (RStar r) []"
| star_more: "matches r s \<Longrightarrow> matches (RStar r) t \<Longrightarrow> matches (RStar r) (s @ t)"

inductive_simps matches_never [simp]: "matches RNever s"
inductive_simps matches_empty [simp]: "matches REmpty s"
inductive_simps matches_class: "matches (RClass rs) s"
inductive_simps matches_cat: "matches (RCat r q) s"
inductive_simps matches_alt: "matches (RAlt r q) s"

lemma matches_nil_iff: "matches r [] \<longleftrightarrow> accepts_empty r"
proof (induction r)
  case (RCat r q)
  then show ?case by (auto simp: matches_cat)
next
  case (RStar r)
  then show ?case by (auto intro: matches.star_none)
qed (auto simp: matches_class matches_alt)

lemma star_first_byte:
  assumes "matches (RStar r) (c # s)"
  obtains u v where "s = u @ v" and "matches r (c # u)" and "matches (RStar r) v"
proof -
  have "matches x w \<Longrightarrow> x = RStar r \<Longrightarrow> w = c # s \<Longrightarrow>
      \<exists>u v. s = u @ v \<and> matches r (c # u) \<and> matches (RStar r) v" for x w s
  proof (induction arbitrary: s rule: matches.induct)
    case (star_more r' a b)
    then show ?case by (cases a) auto
  qed auto
  with assms that show thesis by blast
qed

lemma matches_star_cons:
  "matches (RStar r) (c # s) \<longleftrightarrow> (\<exists>u v. s = u @ v \<and> matches r (c # u) \<and> matches (RStar r) v)"
  by (metis append_Cons matches.star_more star_first_byte)

lemma matches_cat_cons:
  "matches (RCat r q) (c # s) \<longleftrightarrow>
     (accepts_empty r \<and> matches q (c # s)) \<or> (\<exists>u v. s = u @ v \<and> matches r (c # u) \<and> matches q v)"
  by (auto simp: matches_cat Cons_eq_append_conv matches_nil_iff) (metis matches_nil_iff)

lemma matches_after_byte: "matches (after_byte c r) s \<longleftrightarrow> matches r (c # s)"
proof (induction r arbitrary: s)
  case (RCat r q)
  have "matches (RCat (after_byte c r) q) s \<longleftrightarrow> (\<exists>u v. s = u @ v \<and> matches r (c # u) \<and> matches q v)"
    by (auto simp: matches_cat RCat.IH)
  then show ?case
    by (auto simp: matches_alt matches_cat_cons RCat.IH)
next
  case (RStar r)
  then show ?case by (simp add: matches_star_cons matches_cat)
qed (auto simp: matches_class matches_alt)

lemma MatchString_iff: "MatchString r s \<longleftrightarrow> matches r s"
  by (induction s arbitrary: r) (simp_all add: matches_nil_iff matches_after_byte)

declare MatchString.simps [simp del]

lemma matches_class_cat:
  "matches (RCat (RClass rs) q) s \<longleftrightarrow> (\<exists>c t. s = c # t \<and> in_class c rs \<and> matches q t)"
  by (auto simp: matches_cat matches_class) (metis append_Cons append_Nil)

lemma matches_star_class:
  "matches (RStar (RClass rs)) s \<longleftrightarrow> (\<forall>c \<in> set s. in_class c rs)"
  by (induction s) (auto simp: matches_star_cons matches_class intro: matches.star_none)

end
