(* ===== verification/Model.thy ===== *)
theory Model
  imports Go_Regexp
begin

text \<open>
  \<^verbatim>\<open>internal/model/model.go\<close>: the error type with its codes and the classification of errors,
  targets and their validation, work-queue keys, replica bounds, and the data types every other
  package exchanges. The lemmas give the exact accepted language of every validator, the round
  trip between \<^verbatim>\<open>Key\<close> and \<^verbatim>\<open>ParseKey\<close>, and the codes errors are classified under.
\<close>

named_theorems model_defs \<open>definitions of package model that evaluate on concrete values\<close>

section \<open>Codes and errors\<close>

definition MaxReplicas :: int32 where
  "MaxReplicas = 1000"

text \<open>\<^verbatim>\<open>type Code string\<close>: any string can be a code; the package names seven.\<close>

type_synonym code = string

definition InvalidArgument :: code where "InvalidArgument = ''invalid_argument''"
definition NotFound :: code where "NotFound = ''not_found''"
definition Conflict :: code where "Conflict = ''conflict''"
definition Forbidden :: code where "Forbidden = ''forbidden''"
definition Unavailable :: code where "Unavailable = ''unavailable''"
definition FailedPrecondition :: code where "FailedPrecondition = ''failed_precondition''"
definition Internal :: code where "Internal = ''internal''"

lemmas code_defs [model_defs] =
  InvalidArgument_def NotFound_def Conflict_def Forbidden_def Unavailable_def
  FailedPrecondition_def Internal_def

definition codes :: "code list" where
  "codes = [InvalidArgument, NotFound, Conflict, Forbidden, Unavailable, FailedPrecondition, Internal]"

lemma distinct_codes: "distinct codes"
  by (simp add: codes_def code_defs)

text \<open>
  Go \<^verbatim>\<open>error\<close> values, by what \<^verbatim>\<open>errors.As\<close> and \<^verbatim>\<open>errors.Is\<close> can see of them:
  \<^verbatim>\<open>*model.Error\<close> with its optional cause, the two sentinels of package context, an error that
  wraps another (\<^verbatim>\<open>fmt.Errorf("...%w")\<close>, \<^verbatim>\<open>*url.Error\<close>), and any other error, identified by its
  text. A \<^verbatim>\<open>nil\<close> error is \<^const>\<open>None\<close>.
\<close>

datatype gerror =
    ModelError (Code: code) (Message: string) (Cause: "gerror option")
  | DeadlineExceeded
  | Canceled
  | WrapError string gerror
  | OtherError string

definition E :: "code \<Rightarrow> string \<Rightarrow> gerror option \<Rightarrow> gerror" where
  "E code message cause = ModelError code message cause"

fun errors_Unwrap :: "gerror \<Rightarrow> gerror option" where
  "errors_Unwrap (ModelError _ _ cause) = cause"
| "errors_Unwrap (WrapError _ e) = Some e"
| "errors_Unwrap _ = None"

text \<open>\<^verbatim>\<open>errors.As(err, &e)\<close> for \<^verbatim>\<open>e *model.Error\<close>: the outermost one on the chain.\<close>

fun errors_As :: "gerror \<Rightarrow> gerror option" where
  "errors_As (ModelError c m cause) = Some (ModelError c m cause)"
| "errors_As (WrapError _ e) = errors_As e"
| "errors_As _ = None"

text \<open>\<^verbatim>\<open>errors.Is(err, target)\<close> for a sentinel target: some error on the chain is the target.\<close>

fun errors_Is :: "gerror \<Rightarrow> gerror \<Rightarrow> bool" where
  "errors_Is (ModelError c m (Some e)) t = (ModelError c m (Some e) = t \<or> errors_Is e t)"
| "errors_Is (WrapError m e) t = (WrapError m e = t \<or> errors_Is e t)"
| "errors_Is e t = (e = t)"

definition ErrorCode :: "gerror option \<Rightarrow> code" where
  "ErrorCode err = (case err of
       None \<Rightarrow> Internal
     | Some e \<Rightarrow> (case errors_As e of
           Some m \<Rightarrow> Code m
         | None \<Rightarrow> if errors_Is e DeadlineExceeded \<or> errors_Is e Canceled then Unavailable else Internal))"

definition PublicError :: "gerror option \<Rightarrow> string" where
  "PublicError err = (case err of
       None \<Rightarrow> ''internal server error''
     | Some e \<Rightarrow> (case errors_As e of
           Some m \<Rightarrow> Message m
         | None \<Rightarrow>
             if errors_Is e DeadlineExceeded then ''operation timed out''
             else if errors_Is e Canceled then ''operation canceled''
             else ''internal server error''))"

lemma errors_As_ModelError: "errors_As e = Some m \<Longrightarrow> \<exists>c t k. m = ModelError c t k"
  by (induction e rule: errors_As.induct) auto

lemma errors_As_E [simp]: "errors_As (E c m k) = Some (ModelError c m k)"
  by (simp add: E_def)

lemma ErrorCode_E [simp]: "ErrorCode (Some (E c m k)) = c"
  by (simp add: ErrorCode_def E_def)

lemma PublicError_E [simp]: "PublicError (Some (E c m k)) = m"
  by (simp add: PublicError_def E_def)

lemma ErrorCode_WrapError [simp]: "ErrorCode (Some (WrapError w e)) = ErrorCode (Some e)"
  by (simp add: ErrorCode_def split: option.split)

lemma ErrorCode_sentinels [simp]:
  "ErrorCode (Some DeadlineExceeded) = Unavailable" "ErrorCode (Some Canceled) = Unavailable"
  "ErrorCode (Some (OtherError s)) = Internal" "ErrorCode None = Internal"
  by (simp_all add: ErrorCode_def)

section \<open>Targets\<close>

record target =
  Namespace :: string
  Name :: string

definition mk_target :: "string \<Rightarrow> string \<Rightarrow> target" where
  "mk_target ns n = \<lparr>Namespace = ns, Name = n\<rparr>"

lemma mk_target_id [simp]: "mk_target (Namespace t) (Name t) = t"
  by (simp add: mk_target_def)

lemma mk_target_sel [simp]: "Namespace (mk_target ns n) = ns" "Name (mk_target ns n) = n"
  by (simp_all add: mk_target_def)

definition Key :: "target \<Rightarrow> string" where
  "Key t = Namespace t @ ''/'' @ Name t"

definition alnum_class :: "(char \<times> char) list" where
  "alnum_class = [(CHR ''a'', CHR ''z''), (CHR ''0'', CHR ''9'')]"

definition label_class :: "(char \<times> char) list" where
  "label_class = (CHR ''-'', CHR ''-'') # alnum_class"

text \<open>\<^verbatim>\<open>^[a-z0-9]([-a-z0-9]*[a-z0-9])?$\<close>\<close>

definition dnsLabel :: regex where
  "dnsLabel = RCat (RClass alnum_class)
     (ROpt (RCat (RStar (RClass label_class)) (RClass alnum_class)))"

text \<open>The messages hold an en dash, three bytes of UTF-8.\<close>

definition en_dash :: string where
  "en_dash = [CHR 0xE2, CHR 0x80, CHR 0x93]"

definition ValidateNamespace :: "string \<Rightarrow> bool \<Rightarrow> gerror option" where
  "ValidateNamespace s allowEmpty =
     (if s = [] \<and> allowEmpty then None
      else if length s = 0 \<or> length s > 63 \<or> \<not> MatchString dnsLabel s
      then Some (E InvalidArgument (''namespace must be a DNS label of 1'' @ en_dash @ ''63 characters'') None)
      else None)"

text \<open>The \<^verbatim>\<open>range\<close> loop over the labels of the name, with its early return.\<close>

fun validate_labels :: "string list \<Rightarrow> gerror option" where
  "validate_labels [] = None"
| "validate_labels (label # labels) =
     (if length label > 63 \<or> \<not> MatchString dnsLabel label
      then Some (E InvalidArgument ''deployment name must be a DNS subdomain'' None)
      else validate_labels labels)"

definition Target_Validate :: "target \<Rightarrow> gerror option" where
  "Target_Validate t = (case ValidateNamespace (Namespace t) False of
       Some err \<Rightarrow> Some err
     | None \<Rightarrow>
         if length (Name t) = 0 \<or> length (Name t) > 253
         then Some (E InvalidArgument (''deployment name must contain 1'' @ en_dash @ ''253 characters'') None)
         else validate_labels (split_on (CHR ''.'') (Name t)))"

text \<open>\<^verbatim>\<open>return t, t.Validate()\<close> returns the target beside the error; callers use it only without one.\<close>

definition ParseKey :: "string \<Rightarrow> target \<times> gerror option" where
  "ParseKey key = (case split_on (CHR ''/'') key of
       [ns, n] \<Rightarrow> (let t = mk_target ns n in (t, Target_Validate t))
     | _ \<Rightarrow> (mk_target [] [], Some (E InvalidArgument ''expected namespace/name'' None)))"

definition ValidateReplicas :: "int32 \<Rightarrow> gerror option" where
  "ValidateReplicas n =
     (if sint n < 0 \<or> sint n > sint MaxReplicas
      then Some (E InvalidArgument ''replicas must be between 0 and 1000'' None) else None)"

section \<open>Views, requests and results\<close>

record deployment =
  d_Target :: target
  d_UID :: string
  d_ResourceVersion :: string
  d_Replicas :: int32
  d_ReadyReplicas :: int32
  d_AvailableReplicas :: int32
  d_Generation :: int64
  d_ObservedGeneration :: int64
  d_DesiredReplicas :: "int32 option"
  d_IntentVersion :: string
  d_ReconcilePhase :: string
  d_Protected :: bool
  d_Deleting :: bool

record set_request =
  rq_Replicas :: "int32 option"
  rq_ExpectedVersion :: string

record set_result =
  sr_Target :: target
  sr_Replicas :: int32
  sr_Version :: string
  sr_Accepted :: bool

text \<open>
  \<^verbatim>\<open>type Backend interface\<close>: its operations on a state \<open>'s\<close>. \<^verbatim>\<open>List\<close> may not return (its
  page loop is driven by the server), so its result is an option, \<^const>\<open>None\<close> when it does not.
\<close>

record 's backend =
  be_Get :: "target \<Rightarrow> 's \<Rightarrow> (gerror + deployment) \<times> 's"
  be_List :: "string \<Rightarrow> 's \<Rightarrow> ((gerror + deployment list) \<times> 's) option"
  be_Set :: "target \<Rightarrow> int32 \<Rightarrow> string \<Rightarrow> 's \<Rightarrow> (gerror + set_result) \<times> 's"

record intent =
  i_Target :: target
  i_UID :: string
  i_DeploymentUID :: string
  i_Replicas :: int32
  i_Generation :: int64
  i_ResourceVersion :: string
  i_Deleting :: bool

record reconcile_status =
  s_ObservedGeneration :: int64
  s_ObservedReplicas :: int32
  s_ReadyReplicas :: int32
  s_Phase :: string
  s_Reason :: string

section \<open>What the validators accept\<close>

text \<open>The letters of a DNS label, stated on byte values rather than by an expression.\<close>

definition alnum :: "char \<Rightarrow> bool" where
  "alnum c \<longleftrightarrow> (97 \<le> (of_char c :: nat) \<and> of_char c \<le> (122 :: nat)) \<or>
     (48 \<le> (of_char c :: nat) \<and> of_char c \<le> (57 :: nat))"

definition dns_label :: "string \<Rightarrow> bool" where
  "dns_label s \<longleftrightarrow> s \<noteq> [] \<and> alnum (hd s) \<and> alnum (last s) \<and> list_all (\<lambda>c. alnum c \<or> c = CHR ''-'') s"

definition valid_target :: "target \<Rightarrow> bool" where
  "valid_target t \<longleftrightarrow> dns_label (Namespace t) \<and> length (Namespace t) \<le> 63 \<and>
     length (Name t) \<le> 253 \<and> list_all (\<lambda>l. dns_label l \<and> length l \<le> 63) (split_on (CHR ''.'') (Name t))"

definition valid_replicas :: "int32 \<Rightarrow> bool" where
  "valid_replicas n \<longleftrightarrow> 0 \<le> sint n \<and> sint n \<le> 1000"

lemma in_alnum_class [simp]: "in_class c alnum_class \<longleftrightarrow> alnum c"
  by (simp add: in_class_def alnum_class_def alnum_def of_char_def)

lemma dash_value: "(of_char c :: nat) = 45 \<longleftrightarrow> c = CHR ''-''"
proof -
  have "(of_char (CHR ''-'') :: nat) = 45" by simp
  then show ?thesis by (metis of_char_eq_iff)
qed

lemma in_label_class [simp]: "in_class c label_class \<longleftrightarrow> alnum c \<or> c = CHR ''-''"
proof -
  have "in_class c label_class \<longleftrightarrow> (of_char c :: nat) = 45 \<or> in_class c alnum_class"
    by (auto simp: in_class_def label_class_def)
  then show ?thesis by (auto simp: dash_value)
qed

text \<open>
  The derivative matcher on the program's expression accepts exactly the non-empty strings of
  letters, digits and dashes that begin and end with a letter or digit.
\<close>

lemma dnsLabel_language [simp]: "MatchString dnsLabel s = dns_label s"
proof -
  have tail: "matches (ROpt (RCat (RStar (RClass label_class)) (RClass alnum_class))) u \<longleftrightarrow>
      u = [] \<or> (list_all (\<lambda>c. alnum c \<or> c = CHR ''-'') u \<and> alnum (last u))" for u
    by (cases u rule: rev_cases)
       (auto simp: ROpt_def matches_alt matches_cat matches_class matches_star_class list_all_iff)
  show ?thesis
    by (cases s) (auto simp: MatchString_iff dnsLabel_def matches_class_cat tail dns_label_def)
qed

lemma ValidateNamespace_strict:
  "ValidateNamespace s False = None \<longleftrightarrow> dns_label s \<and> length s \<le> 63"
  by (auto simp: ValidateNamespace_def dns_label_def)

lemma ValidateNamespace_optional:
  "ValidateNamespace s True = None \<longleftrightarrow> s = [] \<or> (dns_label s \<and> length s \<le> 63)"
  by (auto simp: ValidateNamespace_def dns_label_def)

lemma validate_labels_None:
  "validate_labels ls = None \<longleftrightarrow> list_all (\<lambda>l. dns_label l \<and> length l \<le> 63) ls"
  by (induction ls) auto

lemma Target_Validate_None: "Target_Validate t = None \<longleftrightarrow> valid_target t"
proof (cases "ValidateNamespace (Namespace t) False")
  case None
  moreover have "dns_label [] = False" by (simp add: dns_label_def)
  ultimately show ?thesis
    using ValidateNamespace_strict [of "Namespace t"]
    by (cases "Name t = []") (auto simp: Target_Validate_def valid_target_def validate_labels_None)
next
  case (Some e)
  then have "\<not> (dns_label (Namespace t) \<and> length (Namespace t) \<le> 63)"
    using ValidateNamespace_strict [of "Namespace t"] by simp
  with Some show ?thesis by (auto simp: Target_Validate_def valid_target_def)
qed

lemma ValidateReplicas_None: "ValidateReplicas n = None \<longleftrightarrow> valid_replicas n"
  by (auto simp: ValidateReplicas_def valid_replicas_def MaxReplicas_def)

text \<open>Every rejection of a validator carries the code of a client mistake.\<close>

lemma ValidateNamespace_code: "ValidateNamespace s b = Some e \<Longrightarrow> ErrorCode (Some e) = InvalidArgument"
  by (auto simp: ValidateNamespace_def split: if_splits)

lemma validate_labels_code: "validate_labels ls = Some e \<Longrightarrow> ErrorCode (Some e) = InvalidArgument"
  by (induction ls) (auto split: if_splits)

lemma Target_Validate_code: "Target_Validate t = Some e \<Longrightarrow> ErrorCode (Some e) = InvalidArgument"
  by (auto simp: Target_Validate_def dest: ValidateNamespace_code validate_labels_code
      split: option.splits if_splits)

lemma ValidateReplicas_code: "ValidateReplicas n = Some e \<Longrightarrow> ErrorCode (Some e) = InvalidArgument"
  by (auto simp: ValidateReplicas_def split: if_splits)

section \<open>Keys\<close>

text \<open>A slash separates the parts of a key, and neither part of a valid target holds one.\<close>

lemma alnum_not [simp]: "\<not> alnum (CHR ''/'')" "\<not> alnum (CHR ''.'')" "\<not> alnum (CHR ''-'')"
  by (simp_all add: alnum_def)

lemma dns_label_no_slash: "dns_label s \<Longrightarrow> CHR ''/'' \<notin> set s"
  by (auto simp: dns_label_def list_all_iff)

lemma join_on_chars: "set (join_on c ps) \<subseteq> insert c (\<Union> (set ` set ps))"
  by (induction c ps rule: join_on.induct) auto

lemma valid_target_no_slash:
  assumes "valid_target t"
  shows "CHR ''/'' \<notin> set (Namespace t)" and "CHR ''/'' \<notin> set (Name t)"
proof -
  show "CHR ''/'' \<notin> set (Namespace t)"
    using assms by (simp add: valid_target_def dns_label_no_slash)
  have "\<forall>l \<in> set (split_on (CHR ''.'') (Name t)). CHR ''/'' \<notin> set l"
    using assms by (auto simp: valid_target_def list_all_iff dns_label_no_slash)
  then show "CHR ''/'' \<notin> set (Name t)"
    using join_on_chars [of "CHR ''.''" "split_on (CHR ''.'') (Name t)"] by auto
qed

lemma split_Key:
  "valid_target t \<Longrightarrow> split_on (CHR ''/'') (Key t) = [Namespace t, Name t]"
  by (simp add: Key_def valid_target_no_slash)

lemma ParseKey_Key: "valid_target t \<Longrightarrow> ParseKey (Key t) = (t, None)"
  by (simp add: ParseKey_def split_Key Target_Validate_None Let_def)

lemma ParseKey_None_cases:
  assumes "ParseKey key = (t, None)"
  shows "valid_target t" and "Key t = key"
proof -
  obtain ns n where parts: "split_on (CHR ''/'') key = [ns, n]" and t: "t = mk_target ns n"
    and ok: "Target_Validate t = None"
    using assms by (auto simp: ParseKey_def Let_def split: list.splits)
  from ok show "valid_target t" by (simp add: Target_Validate_None)
  show "Key t = key" using split_on_two(1) [OF parts] t by (simp add: Key_def)
qed

section \<open>Properties\<close>

text \<open>
  C40. A target passes \<^verbatim>\<open>Target.Validate\<close> exactly when its namespace is a DNS label of at most
  63 bytes and its name is a dot-separated sequence of such labels of at most 253 bytes; every
  rejection carries the code InvalidArgument.
\<close>

theorem Target_Validate_correct:
  "(Target_Validate t = None \<longleftrightarrow> valid_target t) \<and>
   (Target_Validate t \<noteq> None \<longleftrightarrow> ErrorCode (Target_Validate t) = InvalidArgument)"
proof
  show "Target_Validate t = None \<longleftrightarrow> valid_target t" by (rule Target_Validate_None)
  show "Target_Validate t \<noteq> None \<longleftrightarrow> ErrorCode (Target_Validate t) = InvalidArgument"
    by (cases "Target_Validate t") (auto simp: code_defs Target_Validate_code)
qed

text \<open>
  \<^verbatim>\<open>ParseKey\<close> and \<^verbatim>\<open>Key\<close> are inverse on valid targets: a key parses without error to a
  target exactly when that target is valid and the key is its key.
\<close>

lemma ParseKey_Key_roundtrip:
  "ParseKey key = (t, None) \<longleftrightarrow> valid_target t \<and> Key t = key"
  using ParseKey_Key ParseKey_None_cases by blast

end
