(* ===== verification/Kube_Client.thy ===== *)
theory Kube_Client
  imports Model "HOL-Library.Sublist"
begin

text \<open>
  What \<^verbatim>\<open>internal/kube\<close> calls and the repository does not contain: the Kubernetes API (through
  client-go's typed and dynamic clients), the informer caches, and the helper packages
  \<^verbatim>\<open>apierrors\<close>, \<^verbatim>\<open>unstructured\<close> and \<^verbatim>\<open>retry\<close>. All of it is one parameter, a record
  \<open>'w kube\<close> of functions over an arbitrary world \<open>'w\<close>. A call may change the world in any way,
  so a client also stands for every other actor that writes between two calls, for expired
  contexts and for failures.

  The model's own state is a session: the world and the requests sent to the API server so far,
  in order. Reads from an informer cache send no request. The request log is a ghost: no operation
  looks at it.

  The documented behaviour that some theorems rely on is stated in the locales
  \<open>apierrors_pkg\<close>, \<open>retry_pkg\<close>, \<open>unstructured_pkg\<close> and \<open>kube_api\<close>, and collected in
  \<open>kube_client\<close>.
\<close>

named_theorems sess \<open>how the session changes under a call\<close>

section \<open>API objects, as far as the program reads or writes them\<close>

record apps_deployment =
  ad_Namespace :: string
  ad_Name :: string
  ad_UID :: string
  ad_ResourceVersion :: string
  ad_Generation :: int64
  ad_DeletionTimestamp :: "string option"
  ad_Annotations :: "(string \<times> string) list"
  ad_SpecReplicas :: "int32 option"
  ad_StatusReadyReplicas :: int32
  ad_StatusAvailableReplicas :: int32
  ad_StatusObservedGeneration :: int64

record deployment_list =
  dl_Items :: "apps_deployment list"
  dl_Continue :: string

record list_options =
  lo_Limit :: int64
  lo_Continue :: string

record scale =
  sc_UID :: string
  sc_ResourceVersion :: string
  sc_SpecReplicas :: int32

record hpa =
  h_Namespace :: string
  h_RefKind :: string
  h_RefName :: string
  h_RefAPIVersion :: string

record owner_reference =
  or_APIVersion :: string
  or_Kind :: string
  or_Name :: string
  or_UID :: string

text \<open>\<^verbatim>\<open>map[string]any\<close> as unstructured objects hold it.\<close>

datatype gval =
    VNull
  | VBool bool
  | VInt int64
  | VString string
  | VList "gval list"
  | VMap "(string \<times> gval) list"

type_synonym gobject = "(string \<times> gval) list"

record unstructured =
  u_Object :: gobject

text \<open>The value at a path of nested maps; a path through anything else has no value.\<close>

fun at_path :: "gobject \<Rightarrow> string list \<Rightarrow> gval option" where
  "at_path obj [] = None"
| "at_path obj [f] = map_of obj f"
| "at_path obj (f # g # fs) = (case map_of obj f of Some (VMap m) \<Rightarrow> at_path m (g # fs) | _ \<Rightarrow> None)"

declare at_path.simps [simp del]

text \<open>\<^verbatim>\<open>m[key] = value\<close> on a Go map.\<close>

fun map_put :: "string \<Rightarrow> 'v \<Rightarrow> (string \<times> 'v) list \<Rightarrow> (string \<times> 'v) list" where
  "map_put key v [] = [(key, v)]"
| "map_put key v ((x, w) # m) = (if x = key then (key, v) # m else (x, w) # map_put key v m)"

lemma map_of_map_put [simp]: "map_of (map_put key v m) = (map_of m)(key \<mapsto> v)"
  by (induction m rule: map_put.induct) auto

section \<open>Sessions\<close>

datatype api_call =
    GetDeployment string string
  | ListDeployments string list_options
  | GetScaleOf string string
  | UpdateScaleOf string string scale
  | ListHPAs string
  | GetIntentObject string string
  | CreateIntent string unstructured
  | UpdateIntent string unstructured
  | UpdateIntentStatus string unstructured
  | ListIntents string list_options

record 'w session =
  world :: 'w
  calls :: "api_call list"

type_synonym ('w, 'r) op = "'w session \<Rightarrow> 'r \<times> 'w session"

definition request :: "api_call \<Rightarrow> ('w \<Rightarrow> 'r \<times> 'w) \<Rightarrow> ('w, 'r) op" where
  "request c f s = (case f (world s) of (r, w) \<Rightarrow> (r, s\<lparr>world := w, calls := calls s @ [c]\<rparr>))"

definition cached :: "('w \<Rightarrow> 'r \<times> 'w) \<Rightarrow> ('w, 'r) op" where
  "cached f s = (case f (world s) of (r, w) \<Rightarrow> (r, s\<lparr>world := w\<rparr>))"

text \<open>The requests that can change the cluster.\<close>

fun is_write :: "api_call \<Rightarrow> bool" where
  "is_write (UpdateScaleOf _ _ _) = True"
| "is_write (CreateIntent _ _) = True"
| "is_write (UpdateIntent _ _) = True"
| "is_write (UpdateIntentStatus _ _) = True"
| "is_write _ = False"

fun is_scale_write :: "api_call \<Rightarrow> bool" where
  "is_scale_write (UpdateScaleOf _ _ _) = True"
| "is_scale_write _ = False"

fun is_status_write :: "api_call \<Rightarrow> bool" where
  "is_status_write (UpdateIntentStatus _ _) = True"
| "is_status_write _ = False"

definition writes :: "'w session \<Rightarrow> api_call list" where
  "writes s = filter is_write (calls s)"

definition scale_writes :: "'w session \<Rightarrow> api_call list" where
  "scale_writes s = filter is_scale_write (calls s)"

definition status_writes :: "'w session \<Rightarrow> api_call list" where
  "status_writes s = filter is_status_write (calls s)"

lemmas log_defs = writes_def scale_writes_def status_writes_def

lemma calls_request [sess]: "request c f s = (r, s') \<Longrightarrow> calls s' = calls s @ [c]"
  by (auto simp: request_def split: prod.splits)

lemma calls_cached [sess]: "cached f s = (r, s') \<Longrightarrow> calls s' = calls s"
  by (auto simp: cached_def split: prod.splits)

lemma request_world: "request c f s = (r, s') \<Longrightarrow> f (world s) = (r, world s')"
  by (auto simp: request_def split: prod.splits)

lemma cached_world: "cached f s = (r, s') \<Longrightarrow> f (world s) = (r, world s')"
  by (auto simp: cached_def split: prod.splits)

lemma log_append [simp]:
  "calls s' = calls s @ cs \<Longrightarrow> writes s' = writes s @ filter is_write cs"
  "calls s' = calls s @ cs \<Longrightarrow> scale_writes s' = scale_writes s @ filter is_scale_write cs"
  "calls s' = calls s @ cs \<Longrightarrow> status_writes s' = status_writes s @ filter is_status_write cs"
  by (simp_all add: log_defs)

text \<open>
  \<open>extends P s s'\<close>: between two states of a session only requests that satisfy \<open>P\<close> were sent.
  The rules in \<open>ext\<close> follow a run backwards from its last state.
\<close>

named_theorems ext \<open>backward rules for the requests an operation sends\<close>

definition extends :: "(api_call \<Rightarrow> bool) \<Rightarrow> 'w session \<Rightarrow> 'w session \<Rightarrow> bool" where
  "extends P s s' \<longleftrightarrow> (\<exists>cs. calls s' = calls s @ cs \<and> list_all P cs)"

lemma extends_refl [simp, ext]: "extends P s s"
  by (simp add: extends_def)

lemma extends_trans [trans]: "extends P s s1 \<Longrightarrow> extends P s1 s2 \<Longrightarrow> extends P s s2"
  by (auto simp: extends_def)

lemma extends_mono: "extends P s s' \<Longrightarrow> (\<And>c. P c \<Longrightarrow> Q c) \<Longrightarrow> extends Q s s'"
  by (auto simp: extends_def list_all_iff)

lemma extends_request [ext]: "request c f s1 = (r, s2) \<Longrightarrow> P c \<Longrightarrow> extends P s s1 \<Longrightarrow> extends P s s2"
  by (auto simp: extends_def dest!: calls_request)

lemma extends_cached [ext]: "cached f s1 = (r, s2) \<Longrightarrow> extends P s s1 \<Longrightarrow> extends P s s2"
  by (auto simp: extends_def dest!: calls_cached)

lemma extends_reads: "extends (\<lambda>c. \<not> is_write c) s s' \<Longrightarrow> writes s' = writes s"
  by (auto simp: extends_def log_defs list_all_iff filter_empty_conv)

lemma extends_none: "extends (\<lambda>_. False) s s' \<Longrightarrow> calls s' = calls s"
proof -
  assume "extends (\<lambda>_. False) s s'"
  then obtain cs where "calls s' = calls s @ cs" and "list_all (\<lambda>_. False) cs"
    by (auto simp: extends_def)
  then show ?thesis by (cases cs) auto
qed

lemma extends_writes:
  "extends P s s' \<Longrightarrow> \<exists>ws. writes s' = writes s @ ws \<and> list_all (\<lambda>c. P c \<and> is_write c) ws"
  by (auto simp: extends_def log_defs list_all_iff)

section \<open>The client\<close>

text \<open>
  One field per function of a third-party package that the source calls, named after it. Informer
  reads are functions of the world too, since watches change the caches in the background.
\<close>

record 'w kube =
  \<comment> \<open>client-go, typed: \<^verbatim>\<open>Kube.AppsV1().Deployments(ns)\<close>, \<^verbatim>\<open>Kube.AutoscalingV2()\<close>\<close>
  Deployments_Get :: "string \<Rightarrow> string \<Rightarrow> 'w \<Rightarrow> (gerror + apps_deployment) \<times> 'w"
  Deployments_List :: "string \<Rightarrow> list_options \<Rightarrow> 'w \<Rightarrow> (gerror + deployment_list) \<times> 'w"
  Deployments_GetScale :: "string \<Rightarrow> string \<Rightarrow> 'w \<Rightarrow> (gerror + scale) \<times> 'w"
  Deployments_UpdateScale :: "string \<Rightarrow> string \<Rightarrow> scale \<Rightarrow> 'w \<Rightarrow> (gerror + scale) \<times> 'w"
  HPAs_List :: "string \<Rightarrow> 'w \<Rightarrow> (gerror + hpa list) \<times> 'w"
  \<comment> \<open>client-go, dynamic: \<^verbatim>\<open>Dynamic.Resource(IntentGVR).Namespace(ns)\<close>\<close>
  Intents_Get :: "string \<Rightarrow> string \<Rightarrow> 'w \<Rightarrow> (gerror + unstructured) \<times> 'w"
  Intents_Create :: "string \<Rightarrow> unstructured \<Rightarrow> 'w \<Rightarrow> (gerror + unstructured) \<times> 'w"
  Intents_Update :: "string \<Rightarrow> unstructured \<Rightarrow> 'w \<Rightarrow> (gerror + unstructured) \<times> 'w"
  Intents_UpdateStatus :: "string \<Rightarrow> unstructured \<Rightarrow> 'w \<Rightarrow> (gerror + unstructured) \<times> 'w"
  Intents_List :: "string \<Rightarrow> list_options \<Rightarrow> 'w \<Rightarrow> (gerror + unstructured list) \<times> 'w"
  \<comment> \<open>informers and listers; an intent lister yields an object of another type as \<^const>\<open>None\<close>\<close>
  DeploymentLister_Get :: "string \<Rightarrow> string \<Rightarrow> 'w \<Rightarrow> (gerror + apps_deployment) \<times> 'w"
  DeploymentLister_List :: "string \<Rightarrow> 'w \<Rightarrow> (gerror + apps_deployment list) \<times> 'w"
  DeploymentLister_ListAll :: "'w \<Rightarrow> (gerror + apps_deployment list) \<times> 'w"
  IntentLister_Get :: "string \<Rightarrow> string \<Rightarrow> 'w \<Rightarrow> (gerror + unstructured option) \<times> 'w"
  Deployments_HasSynced :: "'w \<Rightarrow> bool"
  Intents_HasSynced :: "'w \<Rightarrow> bool"
  HPAs_HasSynced :: "'w \<Rightarrow> bool"
  \<comment> \<open>apierrors\<close>
  IsNotFound :: "gerror \<Rightarrow> bool"
  IsAlreadyExists :: "gerror \<Rightarrow> bool"
  IsConflict :: "gerror \<Rightarrow> bool"
  IsForbidden :: "gerror \<Rightarrow> bool"
  IsUnauthorized :: "gerror \<Rightarrow> bool"
  IsInvalid :: "gerror \<Rightarrow> bool"
  IsBadRequest :: "gerror \<Rightarrow> bool"
  \<comment> \<open>unstructured\<close>
  NestedString :: "gobject \<Rightarrow> string list \<Rightarrow> string \<times> bool \<times> gerror option"
  NestedInt64 :: "gobject \<Rightarrow> string list \<Rightarrow> int64 \<times> bool \<times> gerror option"
  NestedMap :: "gobject \<Rightarrow> string list \<Rightarrow> gobject \<times> bool \<times> gerror option"
  SetNestedField :: "gobject \<Rightarrow> gval \<Rightarrow> string list \<Rightarrow> gerror + gobject"
  SetOwnerReferences :: "unstructured \<Rightarrow> owner_reference list \<Rightarrow> unstructured"
  GetName :: "unstructured \<Rightarrow> string"
  GetNamespace :: "unstructured \<Rightarrow> string"
  GetUID :: "unstructured \<Rightarrow> string"
  GetResourceVersion :: "unstructured \<Rightarrow> string"
  GetGeneration :: "unstructured \<Rightarrow> int64"
  GetDeletionTimestamp :: "unstructured \<Rightarrow> string option"
  \<comment> \<open>retry: \<^verbatim>\<open>RetryOnConflict(DefaultBackoff, fn)\<close> and \<^verbatim>\<open>OnError(DefaultBackoff, retriable, fn)\<close>, at the result types they are used with\<close>
  RetryOnConflict_set :: "('w, gerror + set_result) op \<Rightarrow> ('w, gerror + set_result) op"
  RetryOnConflict_status :: "('w, gerror + unit) op \<Rightarrow> ('w, gerror + unit) op"
  OnError_set :: "(gerror \<Rightarrow> bool) \<Rightarrow> ('w, gerror + set_result) op \<Rightarrow> ('w, gerror + set_result) op"

section \<open>Documented behaviour of the packages\<close>

text \<open>
  \<open>attempts p f n\<close> runs \<open>f\<close> until it succeeds, fails with an error that \<open>p\<close> does not retry,
  or has failed \<open>n + 1\<close> times, and returns what the last run returned. This is what the retry
  helpers promise, for some number of attempts that depends on the back-off.
\<close>

fun attempts :: "(gerror \<Rightarrow> bool) \<Rightarrow> ('w, gerror + 'a) op \<Rightarrow> nat \<Rightarrow> ('w, gerror + 'a) op" where
  "attempts p f 0 s = f s"
| "attempts p f (Suc n) s = (case f s of
       (Inl e, s') \<Rightarrow> if p e then attempts p f n s' else (Inl e, s')
     | (Inr x, s') \<Rightarrow> (Inr x, s'))"

definition retries ::
  "(gerror \<Rightarrow> bool) \<Rightarrow> (('w, gerror + 'a) op \<Rightarrow> ('w, gerror + 'a) op) \<Rightarrow> bool" where
  "retries p R \<longleftrightarrow> (\<forall>f s. \<exists>n. R f s = attempts p f n s)"

text \<open>The result of a retried operation is the result of one attempt from a state the earlier
  attempts led to.\<close>

lemma attempts_last:
  assumes "attempts p f n s = (r, s')" and "J s"
    and step: "\<And>s e s'. J s \<Longrightarrow> f s = (Inl e, s') \<Longrightarrow> p e \<Longrightarrow> J s'"
  shows "\<exists>s0. J s0 \<and> f s0 = (r, s')"
  using assms(1,2)
proof (induction n arbitrary: s)
  case 0
  then show ?case by auto
next
  case (Suc n)
  obtain r1 s1 where f: "f s = (r1, s1)" by fastforce
  show ?case
  proof (cases "\<exists>e. r1 = Inl e \<and> p e")
    case True
    with Suc.prems f have "attempts p f n s1 = (r, s')" by auto
    moreover have "J s1" using step [OF Suc.prems(2)] f True by auto
    ultimately show ?thesis using Suc.IH by blast
  next
    case False
    with Suc.prems f show ?thesis by (auto split: sum.splits)
  qed
qed

lemma retries_last:
  assumes "retries p R" and "R f s = (r, s')" and "J s"
    and "\<And>s e s'. J s \<Longrightarrow> f s = (Inl e, s') \<Longrightarrow> p e \<Longrightarrow> J s'"
  shows "\<exists>s0. J s0 \<and> f s0 = (r, s')"
proof -
  obtain n where "R f s = attempts p f n s"
    using assms(1) by (auto simp: retries_def)
  with assms(2) have "attempts p f n s = (r, s')" by simp
  then show ?thesis using assms(3,4) by (rule attempts_last)
qed

text \<open>An attempt that ends with an error that is not retried ends the retries.\<close>

lemma retries_first:
  assumes "retries p R" and "f s = (Inl e, s')" and "\<not> p e"
  shows "R f s = (Inl e, s')"
proof -
  obtain n where "R f s = attempts p f n s"
    using assms(1) by (auto simp: retries_def)
  with assms(2,3) show ?thesis by (cases n) auto
qed

text \<open>So does an attempt that succeeds.\<close>

lemma retries_done:
  assumes "retries p R" and "f s = (Inr x, s')"
  shows "R f s = (Inr x, s')"
proof -
  obtain n where "R f s = attempts p f n s"
    using assms(1) by (auto simp: retries_def)
  with assms(2) show ?thesis by (cases n) auto
qed

locale retry_pkg =
  fixes k :: "'w kube"
  assumes retry_conflict_set: "retries (IsConflict k) (RetryOnConflict_set k)"
    and retry_conflict_status: "retries (IsConflict k) (RetryOnConflict_status k)"
    and retry_on_error: "retries p (OnError_set k p)"

text \<open>An error the program itself makes carries no API status.\<close>

locale apierrors_pkg =
  fixes k :: "'w kube"
  assumes own_not_conflict: "\<not> IsConflict k (ModelError c m None)"
    and own_not_exists: "\<not> IsAlreadyExists k (ModelError c m None)"

text \<open>Path accessors return a value of the wanted type when it is there, and otherwise report it
  as absent or as an error. Setting a field changes no unrelated path.\<close>

definition string_at :: "gobject \<Rightarrow> string list \<Rightarrow> string" where
  "string_at obj p = (case at_path obj p of Some (VString v) \<Rightarrow> v | _ \<Rightarrow> [])"

definition int_at :: "gobject \<Rightarrow> string list \<Rightarrow> int64" where
  "int_at obj p = (case at_path obj p of Some (VInt n) \<Rightarrow> n | _ \<Rightarrow> 0)"

definition unrelated :: "string list \<Rightarrow> string list \<Rightarrow> bool" where
  "unrelated p q \<longleftrightarrow> \<not> prefix p q \<and> \<not> prefix q p"

locale unstructured_pkg =
  fixes k :: "'w kube"
  assumes nested_string: "at_path obj p = Some (VString v) \<Longrightarrow> NestedString k obj p = (v, True, None)"
    and nested_string_absent: "\<lbrakk>\<And>v. at_path obj p \<noteq> Some (VString v); NestedString k obj p = (v, found, err)\<rbrakk>
      \<Longrightarrow> err \<noteq> None \<or> \<not> found"
    and nested_int: "at_path obj p = Some (VInt n) \<Longrightarrow> NestedInt64 k obj p = (n, True, None)"
    and nested_int_absent: "\<lbrakk>\<And>n. at_path obj p \<noteq> Some (VInt n); NestedInt64 k obj p = (n, found, err)\<rbrakk>
      \<Longrightarrow> err \<noteq> None \<or> \<not> found"
    and nested_map: "at_path obj p = Some (VMap m) \<Longrightarrow> NestedMap k obj p = (m, True, None)"
    and nested_map_absent: "(\<And>m. at_path obj p \<noteq> Some (VMap m)) \<Longrightarrow> fst (NestedMap k obj p) = []"
    and set_nested: "SetNestedField k obj x p = Inr obj' \<Longrightarrow> at_path obj' p = Some x"
    and set_nested_other: "\<lbrakk>SetNestedField k obj x p = Inr obj'; unrelated p q\<rbrakk>
      \<Longrightarrow> at_path obj' q = at_path obj q"
    and set_nested_error: "SetNestedField k obj x p = Inl e \<Longrightarrow> errors_As e = None"
    and set_owner_other: "unrelated [''metadata'', ''ownerReferences''] q \<Longrightarrow>
      at_path (u_Object (SetOwnerReferences k u rs)) q = at_path (u_Object u) q"
    and get_name: "GetName k u = string_at (u_Object u) [''metadata'', ''name'']"
    and get_namespace: "GetNamespace k u = string_at (u_Object u) [''metadata'', ''namespace'']"
    and get_uid: "GetUID k u = string_at (u_Object u) [''metadata'', ''uid'']"
    and get_version: "GetResourceVersion k u = string_at (u_Object u) [''metadata'', ''resourceVersion'']"
    and get_generation: "GetGeneration k u = int_at (u_Object u) [''metadata'', ''generation'']"

text \<open>The API server answers a Get with the object asked for, and no error of the client packages
  has an error of package model on its chain.\<close>

definition foreign :: "('w \<Rightarrow> (gerror + 'a) \<times> 'w) \<Rightarrow> bool" where
  "foreign f \<longleftrightarrow> (\<forall>w. case f w of (Inl e, _) \<Rightarrow> errors_As e = None | _ \<Rightarrow> True)"

locale kube_api =
  fixes k :: "'w kube"
  assumes get_deployment_named: "Deployments_Get k ns n w = (Inr d, w') \<Longrightarrow> ad_Namespace d = ns \<and> ad_Name d = n"
    and foreign_get: "foreign (Deployments_Get k ns n)"
    and foreign_list: "foreign (Deployments_List k ns opts)"
    and foreign_get_scale: "foreign (Deployments_GetScale k ns n)"
    and foreign_update_scale: "foreign (Deployments_UpdateScale k ns n sc)"
    and foreign_hpas: "foreign (HPAs_List k ns)"
    and foreign_intent_get: "foreign (Intents_Get k ns n)"
    and foreign_intent_create: "foreign (Intents_Create k ns u)"
    and foreign_intent_update: "foreign (Intents_Update k ns u)"
    and foreign_intent_status: "foreign (Intents_UpdateStatus k ns u)"
    and foreign_lister_get: "foreign (DeploymentLister_Get k ns n)"
    and foreign_lister_list: "foreign (DeploymentLister_List k ns)"
    and foreign_lister_all: "foreign (DeploymentLister_ListAll k)"
    and foreign_intent_lister: "foreign (IntentLister_Get k ns n)"

locale kube_client = retry_pkg k + apierrors_pkg k + unstructured_pkg k + kube_api k
  for k :: "'w kube"

end
