(* ===== verification/Kube_Intents.thy ===== *)
theory Kube_Intents
  imports Kube_Client
begin

text \<open>
  \<^verbatim>\<open>internal/kube/intents.go\<close>, with the two helpers of \<^verbatim>\<open>backend.go\<close> it needs first: the mapping of
  client errors to the program's codes and the conversion of a Deployment object to a view.
  Then parsing of intent objects, the level-5 write \<^verbatim>\<open>setIntent\<close>, and the controller's
  \<^verbatim>\<open>UpdateScale\<close> and \<^verbatim>\<open>WriteStatus\<close>.
\<close>

section \<open>Errors and views\<close>

definition Group :: string where
  "Group = ''replicas.reference.example.com''"

text \<open>\<^verbatim>\<open>mapError\<close> on an error; \<^verbatim>\<open>nil\<close> stays \<^verbatim>\<open>nil\<close>, which \<open>map_error\<close> lifts to results.\<close>

definition mapError :: "'w kube \<Rightarrow> gerror \<Rightarrow> gerror" where
  "mapError k err =
     (if errors_As err \<noteq> None then err
      else if errors_Is err Canceled \<or> errors_Is err DeadlineExceeded then err
      else if IsNotFound k err then E NotFound ''Kubernetes resource was not found'' (Some err)
      else if IsAlreadyExists k err \<or> IsConflict k err
        then E Conflict ''resource changed; read the current version and retry'' (Some err)
      else if IsForbidden k err \<or> IsUnauthorized k err then E Forbidden ''Kubernetes access denied'' (Some err)
      else if IsInvalid k err \<or> IsBadRequest k err
        then E InvalidArgument ''Kubernetes rejected the resource'' (Some err)
      else E Unavailable ''Kubernetes operation failed'' (Some err))"

fun map_error :: "'w kube \<Rightarrow> gerror + 'a \<Rightarrow> gerror + 'a" where
  "map_error k (Inl err) = Inl (mapError k err)"
| "map_error k (Inr x) = Inr x"

lemma map_error_eq [simp]:
  "map_error k r = Inl e \<longleftrightarrow> (\<exists>e0. r = Inl e0 \<and> e = mapError k e0)"
  "Inl e = map_error k r \<longleftrightarrow> (\<exists>e0. r = Inl e0 \<and> e = mapError k e0)"
  "map_error k r = Inr x \<longleftrightarrow> r = Inr x" "Inr x = map_error k r \<longleftrightarrow> r = Inr x"
  by (cases r; auto)+

definition deployment_view :: "apps_deployment \<Rightarrow> deployment" where
  "deployment_view d =
     \<lparr>d_Target = mk_target (ad_Namespace d) (ad_Name d), d_UID = ad_UID d,
      d_ResourceVersion = ad_ResourceVersion d,
      d_Replicas = (case ad_SpecReplicas d of Some n \<Rightarrow> n | None \<Rightarrow> 1),
      d_ReadyReplicas = ad_StatusReadyReplicas d, d_AvailableReplicas = ad_StatusAvailableReplicas d,
      d_Generation = ad_Generation d, d_ObservedGeneration = ad_StatusObservedGeneration d,
      d_DesiredReplicas = None, d_IntentVersion = [], d_ReconcilePhase = [],
      d_Protected = (map_of (ad_Annotations d) (Group @ ''/protected'') = Some ''true'' \<or>
        ad_Namespace d \<in> {''kube-system'', ''kube-public'', ''kube-node-lease''}),
      d_Deleting = (ad_DeletionTimestamp d \<noteq> None)\<rparr>"

section \<open>Intent objects\<close>

definition parseIntent :: "'w kube \<Rightarrow> unstructured \<Rightarrow> gerror + intent" where
  "parseIntent k u =
     (case NestedString k (u_Object u) [''spec'', ''deploymentName''] of (name, ok, err) \<Rightarrow>
        if err \<noteq> None \<or> \<not> ok \<or> name \<noteq> GetName k u
        then Inl (E FailedPrecondition ''intent name must match deploymentName'' err)
        else (case NestedString k (u_Object u) [''spec'', ''deploymentUID''] of (uid, ok, err) \<Rightarrow>
          if err \<noteq> None \<or> \<not> ok \<or> uid = []
          then Inl (E FailedPrecondition ''intent has no deployment UID'' err)
          else (case NestedInt64 k (u_Object u) [''spec'', ''replicas''] of (n, ok, err) \<Rightarrow>
            if err \<noteq> None \<or> \<not> ok \<or> sint n < 0 \<or> sint n > sint (int64_of MaxReplicas)
            then Inl (E FailedPrecondition ''invalid replica count in intent'' err)
            else Inr \<lparr>i_Target = mk_target (GetNamespace k u) name, i_UID = GetUID k u,
                i_DeploymentUID = uid, i_Replicas = int32_of n, i_Generation = GetGeneration k u,
                i_ResourceVersion = GetResourceVersion k u,
                i_Deleting = (GetDeletionTimestamp k u \<noteq> None)\<rparr>)))"

definition GetIntent :: "'w kube \<Rightarrow> target \<Rightarrow> ('w, gerror + intent) op" where
  "GetIntent k t s =
     (case request (GetIntentObject (Namespace t) (Name t)) (Intents_Get k (Namespace t) (Name t)) s of
        (Inl err, s1) \<Rightarrow> (Inl (mapError k err), s1)
      | (Inr u, s1) \<Rightarrow> (parseIntent k u, s1))"

text \<open>The object literal \<^verbatim>\<open>setIntent\<close> creates, with its owner reference.\<close>

definition new_intent :: "'w kube \<Rightarrow> deployment \<Rightarrow> int32 \<Rightarrow> unstructured" where
  "new_intent k dep n = SetOwnerReferences k
     \<lparr>u_Object =
       [(''apiVersion'', VString (Group @ ''/v1alpha1'')), (''kind'', VString ''ReplicaIntent''),
        (''metadata'', VMap [(''name'', VString (Name (d_Target dep))),
           (''namespace'', VString (Namespace (d_Target dep))),
           (''labels'', VMap [(''app.kubernetes.io/managed-by'', VString ''replica-control'')])]),
        (''spec'', VMap [(''deploymentName'', VString (Name (d_Target dep))),
           (''deploymentUID'', VString (d_UID dep)), (''replicas'', VInt (int64_of n))])]\<rparr>
     [\<lparr>or_APIVersion = ''apps/v1'', or_Kind = ''Deployment'', or_Name = Name (d_Target dep), or_UID = d_UID dep\<rparr>]"

definition accepted :: "deployment \<Rightarrow> int32 \<Rightarrow> string \<Rightarrow> set_result" where
  "accepted dep n version =
     \<lparr>sr_Target = d_Target dep, sr_Replicas = n, sr_Version = version, sr_Accepted = True\<rparr>"

text \<open>The function \<^verbatim>\<open>setIntent\<close> retries.\<close>

definition setIntent_attempt ::
  "'w kube \<Rightarrow> deployment \<Rightarrow> int32 \<Rightarrow> string \<Rightarrow> ('w, gerror + set_result) op" where
  "setIntent_attempt k dep n expected s =
     (let ns = Namespace (d_Target dep); name = Name (d_Target dep) in
      case request (GetIntentObject ns name) (Intents_Get k ns name) s of
        (Inl err, s1) \<Rightarrow>
          if IsNotFound k err then
            if expected \<noteq> [] then (Inl (E Conflict ''intent no longer exists'' None), s1)
            else (case request (CreateIntent ns (new_intent k dep n)) (Intents_Create k ns (new_intent k dep n)) s1 of
                (Inl err, s2) \<Rightarrow> (Inl err, s2)
              | (Inr u, s2) \<Rightarrow> (Inr (accepted dep n (GetResourceVersion k u)), s2))
          else (Inl err, s1)
      | (Inr u, s1) \<Rightarrow> (case parseIntent k u of
            Inl parseErr \<Rightarrow> (Inl parseErr, s1)
          | Inr previous \<Rightarrow>
              if i_Deleting previous then (Inl (E FailedPrecondition ''intent is being deleted'' None), s1)
              else if i_DeploymentUID previous \<noteq> d_UID dep
              then (Inl (E FailedPrecondition ''intent belongs to a different deployment UID; remove the stale intent'' None), s1)
              else if expected \<noteq> [] \<and> expected \<noteq> GetResourceVersion k u
              then (Inl (E Conflict ''intent version has changed'' None), s1)
              else if i_Replicas previous \<noteq> n then
                (case SetNestedField k (u_Object u) (VInt (int64_of n)) [''spec'', ''replicas''] of
                   Inl err \<Rightarrow> (Inl err, s1)
                 | Inr obj \<Rightarrow>
                     (case request (UpdateIntent ns \<lparr>u_Object = obj\<rparr>) (Intents_Update k ns \<lparr>u_Object = obj\<rparr>) s1 of
                        (Inl err, s2) \<Rightarrow> (Inl err, s2)
                      | (Inr u', s2) \<Rightarrow> (Inr (accepted dep n (GetResourceVersion k u')), s2)))
              else (Inr (accepted dep n (GetResourceVersion k u)), s1)))"

definition setIntent :: "'w kube \<Rightarrow> deployment \<Rightarrow> int32 \<Rightarrow> string \<Rightarrow> ('w, gerror + set_result) op" where
  "setIntent k dep n expected s =
     (case OnError_set k (\<lambda>err. IsConflict k err \<or> IsAlreadyExists k err) (setIntent_attempt k dep n expected) s of
        (r, s') \<Rightarrow> (map_error k r, s'))"

section \<open>Writes of the controller\<close>

definition UpdateScale :: "'w kube \<Rightarrow> deployment \<Rightarrow> int32 \<Rightarrow> ('w, gerror option) op" where
  "UpdateScale k dep n s =
     (let ns = Namespace (d_Target dep); name = Name (d_Target dep) in
      case request (GetScaleOf ns name) (Deployments_GetScale k ns name) s of
        (Inl err, s1) \<Rightarrow> (Some (mapError k err), s1)
      | (Inr sc, s1) \<Rightarrow>
          if sc_UID sc \<noteq> d_UID dep \<or> sc_ResourceVersion sc \<noteq> d_ResourceVersion dep
          then (Some (E Conflict ''deployment changed during reconciliation'' None), s1)
          else let sc' = sc\<lparr>sc_SpecReplicas := n\<rparr> in
            (case request (UpdateScaleOf ns name sc') (Deployments_UpdateScale k ns name sc') s1 of
               (Inl err, s2) \<Rightarrow> (Some (mapError k err), s2)
             | (Inr _, s2) \<Rightarrow> (None, s2)))"

text \<open>
  The status as the map that is stored: the JSON round trip yields the field names, and the three
  numbers are then replaced by 64-bit integers. \<^verbatim>\<open>json.Marshal\<close> does not fail on this struct.
\<close>

definition status_map :: "reconcile_status \<Rightarrow> gobject" where
  "status_map st =
     [(''observedGeneration'', VInt (s_ObservedGeneration st)),
      (''observedReplicas'', VInt (int64_of (s_ObservedReplicas st))),
      (''readyReplicas'', VInt (int64_of (s_ReadyReplicas st))),
      (''phase'', VString (s_Phase st)), (''reason'', VString (s_Reason st))]"

text \<open>\<^verbatim>\<open>reflect.DeepEqual\<close> of a map with \<open>status_map\<close>, whose values hold no maps.\<close>

definition maps_equal :: "gobject \<Rightarrow> gobject \<Rightarrow> bool" where
  "maps_equal a b \<longleftrightarrow> list_all (\<lambda>key. map_of a key = map_of b key) (map fst a @ map fst b)"

definition WriteStatus_attempt :: "'w kube \<Rightarrow> intent \<Rightarrow> reconcile_status \<Rightarrow> ('w, gerror + unit) op" where
  "WriteStatus_attempt k i st s =
     (let ns = Namespace (i_Target i); name = Name (i_Target i) in
      case request (GetIntentObject ns name) (Intents_Get k ns name) s of
        (Inl err, s1) \<Rightarrow> (Inl err, s1)
      | (Inr u, s1) \<Rightarrow>
          if GetUID k u \<noteq> i_UID i \<or> GetGeneration k u \<noteq> i_Generation i \<or> GetDeletionTimestamp k u \<noteq> None
          then (Inl (E Conflict ''intent changed before status could be written'' None), s1)
          else if maps_equal (fst (NestedMap k (u_Object u) [''status''])) (status_map st) then (Inr (), s1)
          else let u' = \<lparr>u_Object = map_put ''status'' (VMap (status_map st)) (u_Object u)\<rparr> in
            (case request (UpdateIntentStatus ns u') (Intents_UpdateStatus k ns u') s1 of
               (Inl err, s2) \<Rightarrow> (Inl err, s2)
             | (Inr _, s2) \<Rightarrow> (Inr (), s2)))"

definition WriteStatus :: "'w kube \<Rightarrow> intent \<Rightarrow> reconcile_status \<Rightarrow> ('w, gerror option) op" where
  "WriteStatus k i st s =
     (case RetryOnConflict_status k (WriteStatus_attempt k i st) s of
        (Inl err, s') \<Rightarrow> (Some (mapError k err), s')
      | (Inr _, s') \<Rightarrow> (None, s'))"

section \<open>Codes of failures\<close>

definition known :: "gerror \<Rightarrow> bool" where
  "known e \<longleftrightarrow> ErrorCode (Some e) \<in> set codes"

lemma known_E: "c \<in> set codes \<Longrightarrow> known (E c m cause)"
  by (simp add: known_def)

lemma known_own [simp]:
  "known (E InvalidArgument m c)" "known (E NotFound m c)" "known (E Conflict m c)"
  "known (E Forbidden m c)" "known (E Unavailable m c)" "known (E FailedPrecondition m c)"
  "known (E Internal m c)"
  by (simp_all add: known_E codes_def)

lemma known_foreign: "errors_As e = None \<Longrightarrow> known e"
  by (simp add: known_def ErrorCode_def codes_def)

lemma mapError_known [simp]: "known e \<Longrightarrow> known (mapError k e)"
  by (simp add: mapError_def)

lemma known_mapError_foreign: "errors_As e = None \<Longrightarrow> known (mapError k e)"
  by (simp add: known_foreign)

lemma foreign_request: "foreign f \<Longrightarrow> request c f s = (Inl e, s') \<Longrightarrow> known e"
  by (auto simp: foreign_def request_def intro!: known_foreign split: prod.splits sum.splits)

lemma foreign_cached: "foreign f \<Longrightarrow> cached f s = (Inl e, s') \<Longrightarrow> known e"
  by (auto simp: foreign_def cached_def intro!: known_foreign split: prod.splits sum.splits)

text \<open>Mapping twice is mapping once, so an error keeps its code up the call chain.\<close>

lemma mapError_idem [simp]: "mapError k (mapError k e) = mapError k e"
  by (simp add: mapError_def)

section \<open>Parsing\<close>

lemma sint_MaxReplicas [simp]: "sint (int64_of MaxReplicas) = 1000" "sint MaxReplicas = 1000"
  by (simp_all add: MaxReplicas_def sint_int64_of)

lemma parseIntent_known: "parseIntent k u = Inl e \<Longrightarrow> known e"
  by (auto simp: parseIntent_def split: prod.splits if_splits)

lemma parseIntent_replicas:
  assumes "parseIntent k u = Inr i"
  shows "valid_replicas (i_Replicas i)"
proof -
  obtain n where n: "i_Replicas i = int32_of n" "0 \<le> sint n" "sint n \<le> 1000"
    using assms by (auto simp: parseIntent_def split: prod.splits if_splits)
  then have "sint (i_Replicas i) = sint n" by (simp add: sint_int32_of)
  with n show ?thesis by (simp add: valid_replicas_def)
qed

lemma parseIntent_uid: "parseIntent k u = Inr i \<Longrightarrow> i_DeploymentUID i \<noteq> []"
  by (auto simp: parseIntent_def split: prod.splits if_splits)

section \<open>Requests sent\<close>

text \<open>A write request is about a target and carries a count.\<close>

fun kube_carries :: "api_call \<Rightarrow> target \<Rightarrow> int32 \<Rightarrow> bool" where
  "kube_carries (UpdateScaleOf ns name sc) t n \<longleftrightarrow> ns = Namespace t \<and> name = Name t \<and> sc_SpecReplicas sc = n"
| "kube_carries (CreateIntent ns u) t n \<longleftrightarrow> ns = Namespace t \<and>
     at_path (u_Object u) [''metadata'', ''name''] = Some (VString (Name t)) \<and>
     at_path (u_Object u) [''spec'', ''deploymentName''] = Some (VString (Name t)) \<and>
     at_path (u_Object u) [''spec'', ''replicas''] = Some (VInt (int64_of n))"
| "kube_carries (UpdateIntent ns u) t n \<longleftrightarrow> ns = Namespace t \<and>
     at_path (u_Object u) [''spec'', ''replicas''] = Some (VInt (int64_of n))"
| "kube_carries _ t n \<longleftrightarrow> False"

lemma extends_GetIntent [ext]:
  "GetIntent k t s1 = (r, s2) \<Longrightarrow> P (GetIntentObject (Namespace t) (Name t)) \<Longrightarrow> extends P s s1 \<Longrightarrow> extends P s s2"
  by (auto simp: GetIntent_def intro: ext split: prod.splits sum.splits)

lemma extends_UpdateScale [ext]:
  assumes "UpdateScale k dep n s1 = (r, s2)"
    and "P (GetScaleOf (Namespace (d_Target dep)) (Name (d_Target dep)))"
    and "\<And>sc. sc_UID sc = d_UID dep \<Longrightarrow> sc_ResourceVersion sc = d_ResourceVersion dep \<Longrightarrow>
      sc_SpecReplicas sc = n \<Longrightarrow> P (UpdateScaleOf (Namespace (d_Target dep)) (Name (d_Target dep)) sc)"
    and "extends P s s1"
  shows "extends P s s2"
  using assms by (auto simp: UpdateScale_def Let_def intro: ext split: prod.splits sum.splits if_splits)

text \<open>One pass of the controller's scale write sends at most one update, last, and exactly one when it succeeds.\<close>

lemma UpdateScale_writes:
  assumes "UpdateScale k dep n s = (r, s')"
  shows "writes s' = writes s \<and> r \<noteq> None \<or>
    (\<exists>sc. writes s' = writes s @ [UpdateScaleOf (Namespace (d_Target dep)) (Name (d_Target dep)) sc] \<and>
       sc_UID sc = d_UID dep \<and> sc_ResourceVersion sc = d_ResourceVersion dep \<and> sc_SpecReplicas sc = n)"
  using assms
  by (auto simp: UpdateScale_def Let_def writes_def dest!: calls_request split: prod.splits sum.splits if_splits)

context unstructured_pkg
begin

lemma new_intent_paths:
  "at_path (u_Object (new_intent k dep n)) [''metadata'', ''name''] = Some (VString (Name (d_Target dep)))"
  "at_path (u_Object (new_intent k dep n)) [''metadata'', ''namespace''] = Some (VString (Namespace (d_Target dep)))"
  "at_path (u_Object (new_intent k dep n)) [''spec'', ''deploymentName''] = Some (VString (Name (d_Target dep)))"
  "at_path (u_Object (new_intent k dep n)) [''spec'', ''deploymentUID''] = Some (VString (d_UID dep))"
  "at_path (u_Object (new_intent k dep n)) [''spec'', ''replicas''] = Some (VInt (int64_of n))"
  by (simp_all add: new_intent_def set_owner_other unrelated_def) (simp_all add: at_path.simps)

lemma nested_string_found: "NestedString k obj p = (v, True, None) \<Longrightarrow> at_path obj p = Some (VString v)"
  using nested_string [of obj p] nested_string_absent [of obj p v True None] by force

lemma nested_int_found: "NestedInt64 k obj p = (n, True, None) \<Longrightarrow> at_path obj p = Some (VInt n)"
  using nested_int [of obj p] nested_int_absent [of obj p n True None] by force

text \<open>What a parsed object holds.\<close>

lemma parseIntent_paths:
  assumes "parseIntent k u = Inr i"
  shows "at_path (u_Object u) [''spec'', ''deploymentUID''] = Some (VString (i_DeploymentUID i))"
    and "at_path (u_Object u) [''spec'', ''deploymentName''] = Some (VString (Name (i_Target i)))"
    and "at_path (u_Object u) [''spec'', ''replicas''] = Some (VInt (int64_of (i_Replicas i)))"
proof -
  show "at_path (u_Object u) [''spec'', ''deploymentUID''] = Some (VString (i_DeploymentUID i))"
    using assms by (auto simp: parseIntent_def intro!: nested_string_found split: prod.splits if_splits)
  show "at_path (u_Object u) [''spec'', ''deploymentName''] = Some (VString (Name (i_Target i)))"
    using assms by (auto simp: parseIntent_def intro!: nested_string_found split: prod.splits if_splits)
  obtain n where n: "NestedInt64 k (u_Object u) [''spec'', ''replicas''] = (n, True, None)"
    and i: "i_Replicas i = int32_of n" and range: "0 \<le> sint n" "sint n \<le> 1000"
    using assms by (auto simp: parseIntent_def split: prod.splits if_splits)
  have "int64_of (i_Replicas i) = n"
    using i range by (simp add: int64_of_int32_of)
  with nested_int_found [OF n]
  show "at_path (u_Object u) [''spec'', ''replicas''] = Some (VInt (int64_of (i_Replicas i)))" by simp
qed

text \<open>An object that \<^verbatim>\<open>setIntent\<close> builds parses to the intent it was built for.\<close>

lemma parse_new_intent:
  assumes "valid_replicas n" and "d_UID dep \<noteq> []"
  shows "\<exists>i. parseIntent k (new_intent k dep n) = Inr i \<and> i_Target i = d_Target dep \<and>
    i_DeploymentUID i = d_UID dep \<and> i_Replicas i = n"
  using assms
  by (simp add: parseIntent_def nested_string nested_int new_intent_paths get_name get_namespace
      string_at_def valid_replicas_def)

end

text \<open>
  The requests \<^verbatim>\<open>setIntent\<close> may send: it creates only without an expected version, and updates an
  object of the Deployment's own UID whose version is the expected one, if there is one.
\<close>

fun set_intent_request :: "'w kube \<Rightarrow> deployment \<Rightarrow> int32 \<Rightarrow> string \<Rightarrow> api_call \<Rightarrow> bool" where
  "set_intent_request k dep n expected (GetIntentObject ns name) \<longleftrightarrow>
     ns = Namespace (d_Target dep) \<and> name = Name (d_Target dep)"
| "set_intent_request k dep n expected (CreateIntent ns u) \<longleftrightarrow>
     ns = Namespace (d_Target dep) \<and> expected = [] \<and> u = new_intent k dep n"
| "set_intent_request k dep n expected (UpdateIntent ns u) \<longleftrightarrow>
     ns = Namespace (d_Target dep) \<and> (expected = [] \<or> GetResourceVersion k u = expected) \<and>
     at_path (u_Object u) [''spec'', ''deploymentUID''] = Some (VString (d_UID dep)) \<and>
     at_path (u_Object u) [''spec'', ''replicas''] = Some (VInt (int64_of n))"
| "set_intent_request k dep n expected _ \<longleftrightarrow> False"

text \<open>The requests \<^verbatim>\<open>WriteStatus\<close> may send.\<close>

fun status_request :: "'w kube \<Rightarrow> intent \<Rightarrow> reconcile_status \<Rightarrow> api_call \<Rightarrow> bool" where
  "status_request k i st (GetIntentObject ns name) \<longleftrightarrow> ns = Namespace (i_Target i) \<and> name = Name (i_Target i)"
| "status_request k i st (UpdateIntentStatus ns u) \<longleftrightarrow> ns = Namespace (i_Target i) \<and>
     GetUID k u = i_UID i \<and> GetGeneration k u = i_Generation i \<and>
     map_of (u_Object u) ''status'' = Some (VMap (status_map st))"
| "status_request k i st _ \<longleftrightarrow> False"

context kube_client
begin

lemma set_intent_update:
  assumes "parseIntent k u = Inr i" and "i_DeploymentUID i = d_UID dep"
    and "expected = [] \<or> expected = GetResourceVersion k u"
    and "SetNestedField k (u_Object u) (VInt (int64_of n)) [''spec'', ''replicas''] = Inr obj"
  shows "set_intent_request k dep n expected (UpdateIntent (Namespace (d_Target dep)) \<lparr>u_Object = obj\<rparr>)"
  using assms set_nested [OF assms(4)] parseIntent_paths(1) [OF assms(1)]
    set_nested_other [OF assms(4), of "[''spec'', ''deploymentUID'']"]
    set_nested_other [OF assms(4), of "[''metadata'', ''resourceVersion'']"]
  by (auto simp: unrelated_def get_version string_at_def)

lemma extends_setIntent_attempt:
  assumes run: "setIntent_attempt k dep n expected s1 = (r, s2)"
    and s1: "extends (set_intent_request k dep n expected) s s1"
  shows "extends (set_intent_request k dep n expected) s s2"
proof -
  let ?P = "set_intent_request k dep n expected"
  let ?ns = "Namespace (d_Target dep)" and ?name = "Name (d_Target dep)"
  obtain g s0 where get: "request (GetIntentObject ?ns ?name) (Intents_Get k ?ns ?name) s1 = (g, s0)"
    by fastforce
  then have s0: "extends ?P s s0" by (rule extends_request) (simp_all add: s1)
  have next_request: "extends ?P s s3" if "request c f s0 = (q, s3)" and "?P c" for c f q s3
    using that s0 by (rule extends_request)
  show ?thesis
  proof (cases g)
    case (Inl err)
    with run get s0 next_request [where c = "CreateIntent ?ns (new_intent k dep n)"] show ?thesis
      by (auto simp: setIntent_attempt_def Let_def split: prod.splits sum.splits if_splits)
  next
    case (Inr u)
    show ?thesis
    proof (cases "s2 = s0")
      case False
      with run get Inr obtain i obj q where "parseIntent k u = Inr i" and "i_DeploymentUID i = d_UID dep"
        and "expected = [] \<or> expected = GetResourceVersion k u"
        and "SetNestedField k (u_Object u) (VInt (int64_of n)) [''spec'', ''replicas''] = Inr obj"
        and up: "request (UpdateIntent ?ns \<lparr>u_Object = obj\<rparr>) (Intents_Update k ?ns \<lparr>u_Object = obj\<rparr>) s0 = (q, s2)"
        by (simp add: setIntent_attempt_def Let_def split: sum.splits if_splits prod.splits)
      then have "?P (UpdateIntent ?ns \<lparr>u_Object = obj\<rparr>)" by (intro set_intent_update)
      with up show ?thesis by (rule next_request)
    qed (simp add: s0)
  qed
qed

lemma setIntent_last:
  assumes "setIntent k dep n expected s = (r, s')"
  obtains r0 s0 where "setIntent_attempt k dep n expected s0 = (r0, s')" and "r = map_error k r0"
    and "extends (set_intent_request k dep n expected) s s0"
proof -
  obtain r0 where run: "OnError_set k (\<lambda>err. IsConflict k err \<or> IsAlreadyExists k err)
      (setIntent_attempt k dep n expected) s = (r0, s')" and r: "r = map_error k r0"
    using assms by (auto simp: setIntent_def split: prod.splits)
  from retries_last [where J = "extends (set_intent_request k dep n expected) s", OF retry_on_error run]
  show thesis using that r extends_setIntent_attempt by auto
qed

lemma extends_setIntent:
  "setIntent k dep n expected s = (r, s') \<Longrightarrow> extends (set_intent_request k dep n expected) s s'"
  by (erule setIntent_last) (rule extends_setIntent_attempt)

text \<open>Status writes: at most the status differs from an object of the intent's UID and generation.\<close>

lemma status_update:
  assumes "GetUID k u = i_UID i" and "GetGeneration k u = i_Generation i"
  shows "status_request k i st
    (UpdateIntentStatus (Namespace (i_Target i)) \<lparr>u_Object = map_put ''status'' (VMap (status_map st)) (u_Object u)\<rparr>)"
proof -
  have "at_path (map_put ''status'' x (u_Object u)) [''metadata'', f] = at_path (u_Object u) [''metadata'', f]" for x f
    by (simp add: at_path.simps)
  with assms show ?thesis by (simp add: get_uid get_generation string_at_def int_at_def)
qed

lemma extends_WriteStatus_attempt:
  assumes run: "WriteStatus_attempt k i st s1 = (r, s2)" and s1: "extends (status_request k i st) s s1"
  shows "extends (status_request k i st) s s2"
proof -
  let ?ns = "Namespace (i_Target i)" and ?name = "Name (i_Target i)"
  obtain g s0 where get: "request (GetIntentObject ?ns ?name) (Intents_Get k ?ns ?name) s1 = (g, s0)"
    by fastforce
  then have s0: "extends (status_request k i st) s s0" by (rule extends_request) (simp_all add: s1)
  have next_request: "extends (status_request k i st) s s3"
    if "request c f s0 = (q, s3)" and "status_request k i st c" for c f q s3
    using that s0 by (rule extends_request)
  from run get s0 show ?thesis
    by (cases g) (auto simp: WriteStatus_attempt_def Let_def simp del: status_request.simps
        intro!: next_request status_update split: prod.splits sum.splits if_splits)
qed

lemma WriteStatus_last:
  assumes "WriteStatus k i st s = (r, s')"
  obtains r0 s0 where "WriteStatus_attempt k i st s0 = (r0, s')"
    and "r = (case r0 of Inl e \<Rightarrow> Some (mapError k e) | Inr _ \<Rightarrow> None)"
    and "extends (status_request k i st) s s0"
proof -
  obtain r0 where run: "RetryOnConflict_status k (WriteStatus_attempt k i st) s = (r0, s')"
    and r: "r = (case r0 of Inl e \<Rightarrow> Some (mapError k e) | Inr _ \<Rightarrow> None)"
    using assms by (auto simp: WriteStatus_def split: prod.splits sum.splits)
  from retries_last [where J = "extends (status_request k i st) s", OF retry_conflict_status run]
  show thesis using that r extends_WriteStatus_attempt by auto
qed

lemma extends_WriteStatus: "WriteStatus k i st s = (r, s') \<Longrightarrow> extends (status_request k i st) s s'"
  by (erule WriteStatus_last) (rule extends_WriteStatus_attempt)

lemma WriteStatus_attempt_known: "WriteStatus_attempt k i st s = (Inl e, s') \<Longrightarrow> known e"
  by (auto simp: WriteStatus_attempt_def Let_def
      dest: foreign_request [OF foreign_intent_get] foreign_request [OF foreign_intent_status]
      split: prod.splits sum.splits if_splits)

lemma WriteStatus_known: "WriteStatus k i st s = (Some e, s') \<Longrightarrow> known e"
  by (erule WriteStatus_last) (auto dest: WriteStatus_attempt_known split: sum.splits)

lemma setIntent_attempt_known:
  assumes "setIntent_attempt k dep n expected s = (Inl e, s')"
  shows "known e"
  using assms
  by (auto simp: setIntent_attempt_def Let_def
      dest: parseIntent_known foreign_request [OF foreign_intent_get] foreign_request [OF foreign_intent_create]
        foreign_request [OF foreign_intent_update] set_nested_error [THEN known_foreign]
      split: prod.splits sum.splits if_splits)

lemma setIntent_attempt_result:
  "setIntent_attempt k dep n expected s = (Inr r, s') \<Longrightarrow> \<exists>v. r = accepted dep n v"
  by (auto simp: setIntent_attempt_def Let_def split: prod.splits sum.splits if_splits)

lemma setIntent_known: "setIntent k dep n expected s = (Inl e, s') \<Longrightarrow> known e"
  by (erule setIntent_last) (auto dest: setIntent_attempt_known)

lemma setIntent_result: "setIntent k dep n expected s = (Inr r, s') \<Longrightarrow> \<exists>v. r = accepted dep n v"
  by (erule setIntent_last) (auto dest: setIntent_attempt_result)

lemma GetIntent_known: "GetIntent k t s = (Inl e, s') \<Longrightarrow> known e"
  by (auto simp: GetIntent_def dest: parseIntent_known foreign_request [OF foreign_intent_get]
      split: prod.splits sum.splits)

lemma UpdateScale_known: "UpdateScale k dep n s = (Some e, s') \<Longrightarrow> known e"
  by (auto simp: UpdateScale_def Let_def
      dest: foreign_request [OF foreign_get_scale] foreign_request [OF foreign_update_scale]
      split: prod.splits sum.splits if_splits)

end

end
