(* ===== verification/Service.thy ===== *)
theory Service
  imports Model
begin

text \<open>
  \<^verbatim>\<open>internal/service/service.go\<close>: validation shared by both transports in front of a
  \<^verbatim>\<open>model.Backend\<close>. The locale \<open>backend_contract\<close> states what a backend promises its callers;
  the guarantees of the service that rest on it are proved in it once.
\<close>

record 's service =
  Backend :: "'s backend"

definition Service_Get :: "'s service \<Rightarrow> target \<Rightarrow> 's \<Rightarrow> (gerror + deployment) \<times> 's" where
  "Service_Get svc t s = (case Target_Validate t of
       Some err \<Rightarrow> (Inl err, s)
     | None \<Rightarrow> be_Get (Backend svc) t s)"

definition Service_List :: "'s service \<Rightarrow> string \<Rightarrow> 's \<Rightarrow> ((gerror + deployment list) \<times> 's) option" where
  "Service_List svc namespace s = (case ValidateNamespace namespace True of
       Some err \<Rightarrow> Some (Inl err, s)
     | None \<Rightarrow> be_List (Backend svc) namespace s)"

definition Service_Set :: "'s service \<Rightarrow> target \<Rightarrow> set_request \<Rightarrow> 's \<Rightarrow> (gerror + set_result) \<times> 's" where
  "Service_Set svc t r s = (case Target_Validate t of
       Some err \<Rightarrow> (Inl err, s)
     | None \<Rightarrow> (case rq_Replicas r of
           None \<Rightarrow> (Inl (E InvalidArgument ''replicas is required (zero is valid)'' None), s)
         | Some n \<Rightarrow> (case ValidateReplicas n of
               Some err \<Rightarrow> (Inl err, s)
             | None \<Rightarrow>
                 if length (rq_ExpectedVersion r) > 256
                 then (Inl (E InvalidArgument ''expectedVersion is too long'' None), s)
                 else be_Set (Backend svc) t n (rq_ExpectedVersion r) s)))"

section \<open>Admission\<close>

text \<open>The requests the service forwards.\<close>

definition admissible :: "target \<Rightarrow> set_request \<Rightarrow> bool" where
  "admissible t r \<longleftrightarrow> valid_target t \<and> length (rq_ExpectedVersion r) \<le> 256 \<and>
     (case rq_Replicas r of None \<Rightarrow> False | Some n \<Rightarrow> valid_replicas n)"

lemma Service_Set_admissible:
  "admissible t r \<Longrightarrow>
     Service_Set svc t r s = be_Set (Backend svc) t (the (rq_Replicas r)) (rq_ExpectedVersion r) s"
  by (auto simp: Service_Set_def admissible_def Target_Validate_None [symmetric]
      ValidateReplicas_None [symmetric] split: option.splits)

lemma Service_Set_rejected:
  assumes "\<not> admissible t r"
  shows "\<exists>e. Service_Set svc t r s = (Inl e, s) \<and> ErrorCode (Some e) = InvalidArgument"
proof (cases "Target_Validate t")
  case (Some e)
  then show ?thesis by (simp add: Service_Set_def Target_Validate_code)
next
  case None
  then have t: "valid_target t" by (simp add: Target_Validate_None)
  show ?thesis
  proof (cases "rq_Replicas r")
    case None
    with \<open>Target_Validate t = None\<close> show ?thesis by (simp add: Service_Set_def)
  next
    case (Some n)
    with assms t have "ValidateReplicas n \<noteq> None \<or> length (rq_ExpectedVersion r) > 256"
      by (auto simp: admissible_def ValidateReplicas_None)
    with Some \<open>Target_Validate t = None\<close> show ?thesis
      by (auto simp: Service_Set_def ValidateReplicas_code split: option.split)
  qed
qed

lemma Service_Set_rejectedD:
  assumes "Service_Set svc t r s = (q, s')" and "\<not> admissible t r"
  obtains e where "q = Inl e" and "s' = s" and "ErrorCode (Some e) = InvalidArgument"
  using assms(1) Service_Set_rejected [OF assms(2), of svc s] by auto

lemma Service_Get_valid: "valid_target t \<Longrightarrow> Service_Get svc t s = be_Get (Backend svc) t s"
  by (simp add: Service_Get_def Target_Validate_None [symmetric])

lemma Service_Get_rejected:
  "\<not> valid_target t \<Longrightarrow> \<exists>e. Service_Get svc t s = (Inl e, s) \<and> ErrorCode (Some e) = InvalidArgument"
  by (auto simp: Service_Get_def Target_Validate_None [symmetric] dest: Target_Validate_code)

section \<open>The contract of a backend\<close>

text \<open>
  \<open>log\<close> observes the requests a state has sent that can change the cluster. Reads add none; the
  list is ordered by key; every write a Set issues is about its target and carries the requested
  count (\<open>carries\<close>), and a result names the target it was asked for; a failure has one of the
  seven codes.
\<close>

locale backend_contract =
  fixes B :: "'s backend"
    and log :: "'s \<Rightarrow> 'e list"
    and carries :: "'e \<Rightarrow> target \<Rightarrow> int32 \<Rightarrow> bool"
  assumes get_reads: "be_Get B t s = (g, s') \<Longrightarrow> log s' = log s"
    and get_code: "be_Get B t s = (Inl e, s') \<Longrightarrow> ErrorCode (Some e) \<in> set codes"
    and list_reads: "be_List B ns s = Some (l, s') \<Longrightarrow> log s' = log s"
    and list_code: "be_List B ns s = Some (Inl e, s') \<Longrightarrow> ErrorCode (Some e) \<in> set codes"
    and list_sorted: "be_List B ns s = Some (Inr ds, s') \<Longrightarrow> sorted (map (\<lambda>d. Key (d_Target d)) ds)"
    and set_writes: "be_Set B t n v s = (q, s') \<Longrightarrow> \<exists>ws. log s' = log s @ ws \<and> list_all (\<lambda>w. carries w t n) ws"
    and set_result: "be_Set B t n v s = (Inr r, s') \<Longrightarrow> sr_Target r = t"
    and set_code: "be_Set B t n v s = (Inl e, s') \<Longrightarrow> ErrorCode (Some e) \<in> set codes"
begin

lemma service_get_reads: "Service_Get \<lparr>Backend = B\<rparr> t s = (r, s') \<Longrightarrow> log s' = log s"
  by (auto simp: Service_Get_def dest: get_reads split: option.splits)

lemma service_list_reads: "Service_List \<lparr>Backend = B\<rparr> ns s = Some (r, s') \<Longrightarrow> log s' = log s"
  by (auto simp: Service_List_def dest: list_reads split: option.splits)

lemma service_list_sorted:
  "Service_List \<lparr>Backend = B\<rparr> ns s = Some (Inr ds, s') \<Longrightarrow> sorted (map (\<lambda>d. Key (d_Target d)) ds)"
  by (auto simp: Service_List_def dest: list_sorted split: option.splits)

text \<open>Whatever a Set request holds, what reaches the cluster is valid and as requested.\<close>

lemma service_set_writes:
  assumes "Service_Set \<lparr>Backend = B\<rparr> t r s = (q, s')"
  shows "\<exists>ws. log s' = log s @ ws \<and>
     (ws = [] \<or> (\<exists>n. admissible t r \<and> rq_Replicas r = Some n \<and> valid_replicas n \<and> list_all (\<lambda>w. carries w t n) ws))"
proof (cases "admissible t r")
  case True
  then obtain n where n: "rq_Replicas r = Some n" "valid_replicas n"
    by (auto simp: admissible_def split: option.splits)
  with True assms have "be_Set B t n (rq_ExpectedVersion r) s = (q, s')"
    by (simp add: Service_Set_admissible)
  then show ?thesis using set_writes True n by blast
next
  case False
  with assms show ?thesis by (auto elim: Service_Set_rejectedD)
qed

lemma service_set_result:
  assumes "Service_Set \<lparr>Backend = B\<rparr> t r s = (Inr q, s')"
  shows "admissible t r" and "sr_Target q = t"
proof -
  show ok: "admissible t r"
    using assms by (auto elim: Service_Set_rejectedD)
  with assms show "sr_Target q = t"
    by (auto simp: Service_Set_admissible dest: set_result)
qed

lemma invalid_argument_code [simp]: "InvalidArgument \<in> set codes"
  by (simp add: codes_def)

lemma service_codes:
  "Service_Get \<lparr>Backend = B\<rparr> t s = (Inl e, s') \<Longrightarrow> ErrorCode (Some e) \<in> set codes"
  "Service_List \<lparr>Backend = B\<rparr> ns s = Some (Inl e, s') \<Longrightarrow> ErrorCode (Some e) \<in> set codes"
  "Service_Set \<lparr>Backend = B\<rparr> t r s = (Inl e, s') \<Longrightarrow> ErrorCode (Some e) \<in> set codes"
proof -
  show "Service_Get \<lparr>Backend = B\<rparr> t s = (Inl e, s') \<Longrightarrow> ErrorCode (Some e) \<in> set codes"
    by (auto simp: Service_Get_def dest: get_code Target_Validate_code split: option.splits)
  show "Service_List \<lparr>Backend = B\<rparr> ns s = Some (Inl e, s') \<Longrightarrow> ErrorCode (Some e) \<in> set codes"
    by (auto simp: Service_List_def dest: list_code ValidateNamespace_code split: option.splits)
  assume set: "Service_Set \<lparr>Backend = B\<rparr> t r s = (Inl e, s')"
  then show "ErrorCode (Some e) \<in> set codes"
  proof (cases "admissible t r")
    case True
    with set show ?thesis by (auto simp: Service_Set_admissible dest: set_code)
  next
    case False
    with set show ?thesis by (auto elim: Service_Set_rejectedD)
  qed
qed

end

end
