(* ===== verification/Kube_Backend.thy ===== *)
theory Kube_Backend
  imports Kube_Intents Service
begin

text \<open>
  \<^verbatim>\<open>internal/kube/backend.go\<close>: which informers a level configures and starts, cache
  synchronisation, reads and listings by level, the write guards, and \<^verbatim>\<open>Set\<close>. The fields of
  \<^verbatim>\<open>Backend\<close> are the client record and the level, passed as arguments.
\<close>

section \<open>Informers and health\<close>

datatype informer = DeploymentInformer | HPAInformer | IntentInformer

record informers =
  Factory :: "informer list"
  DynamicFactory :: "informer list"

definition Backend_New :: "int \<Rightarrow> informers" where
  "Backend_New level =
     \<lparr>Factory = (if level \<ge> 4 then [DeploymentInformer] else []) @ (if level = 5 then [HPAInformer] else []),
      DynamicFactory = (if level = 5 then [IntentInformer] else [])\<rparr>"

text \<open>The informers whose watches \<^verbatim>\<open>Start\<close> launches.\<close>

definition Backend_Start :: "int \<Rightarrow> informers \<Rightarrow> informer list" where
  "Backend_Start level b =
     (if level \<ge> 4 then Factory b else []) @ (if level = 5 then DynamicFactory b else [])"

definition Synced :: "'w kube \<Rightarrow> int \<Rightarrow> 'w session \<Rightarrow> bool" where
  "Synced k level s =
     (if level < 4 then True
      else if \<not> Deployments_HasSynced k (world s) then False
      else level \<noteq> 5 \<or> (Intents_HasSynced k (world s) \<and> HPAs_HasSynced k (world s)))"

definition first_page :: list_options where
  "first_page = \<lparr>lo_Limit = 1, lo_Continue = []\<rparr>"

definition Backend_Health :: "'w kube \<Rightarrow> int \<Rightarrow> ('w, gerror option) op" where
  "Backend_Health k level s =
     (case request (ListDeployments [] first_page) (Deployments_List k [] first_page) s of
        (Inl err, s1) \<Rightarrow> (Some err, s1)
      | (Inr _, s1) \<Rightarrow>
          if level = 5 then
            (case request (ListIntents [] first_page) (Intents_List k [] first_page) s1 of
               (Inl err, s2) \<Rightarrow> (Some err, s2)
             | (Inr _, s2) \<Rightarrow> (None, s2))
          else (None, s1))"

section \<open>Reads\<close>

definition decorateIntent :: "'w kube \<Rightarrow> deployment \<Rightarrow> ('w, gerror + deployment) op" where
  "decorateIntent k out s =
     (case cached (IntentLister_Get k (Namespace (d_Target out)) (Name (d_Target out))) s of
        (Inl err, s1) \<Rightarrow> if IsNotFound k err then (Inr out, s1) else (Inl (mapError k err), s1)
      | (Inr None, s1) \<Rightarrow> (Inl (E Internal ''invalid cached intent type'' None), s1)
      | (Inr (Some u), s1) \<Rightarrow> (case parseIntent k u of
            Inl err \<Rightarrow> (Inl err, s1)
          | Inr i \<Rightarrow>
              if i_DeploymentUID i \<noteq> d_UID out then (Inr out, s1)
              else (Inr (out\<lparr>d_DesiredReplicas := Some (i_Replicas i), d_IntentVersion := i_ResourceVersion i,
                  d_ReconcilePhase := fst (NestedString k (u_Object u) [''status'', ''phase''])\<rparr>), s1)))"

definition cache_unsynced :: gerror where
  "cache_unsynced = E Unavailable ''deployment cache is not synchronized'' None"

definition Backend_Get :: "'w kube \<Rightarrow> int \<Rightarrow> target \<Rightarrow> ('w, gerror + deployment) op" where
  "Backend_Get k level t s =
     (if level \<ge> 4 \<and> \<not> Synced k level s then (Inl cache_unsynced, s)
      else case (if level \<ge> 4 then cached (DeploymentLister_Get k (Namespace t) (Name t)) s
                 else request (GetDeployment (Namespace t) (Name t)) (Deployments_Get k (Namespace t) (Name t)) s) of
          (Inl err, s1) \<Rightarrow> (Inl (mapError k err), s1)
        | (Inr d, s1) \<Rightarrow>
            if level = 5 then decorateIntent k (deployment_view d) s1 else (Inr (deployment_view d), s1))"

text \<open>The pagination loop of \<^verbatim>\<open>List\<close>, driven by the server's continue token.\<close>

definition page :: "string \<Rightarrow> list_options" where
  "page cont = \<lparr>lo_Limit = 500, lo_Continue = cont\<rparr>"

partial_function (option) list_pages ::
  "'w kube \<Rightarrow> string \<Rightarrow> string \<Rightarrow> deployment list \<Rightarrow> 'w session
   \<Rightarrow> ((gerror + deployment list) \<times> 'w session) option" where
  "list_pages k ns cont out s =
     (case request (ListDeployments ns (page cont)) (Deployments_List k ns (page cont)) s of
        (Inl err, s1) \<Rightarrow> Some (Inl (mapError k err), s1)
      | (Inr l, s1) \<Rightarrow>
          if dl_Continue l = [] then Some (Inr (out @ map deployment_view (dl_Items l)), s1)
          else list_pages k ns (dl_Continue l) (out @ map deployment_view (dl_Items l)) s1)"

declare list_pages.simps [code]

fun decorate_all :: "'w kube \<Rightarrow> deployment list \<Rightarrow> ('w, gerror + deployment list) op" where
  "decorate_all k [] s = (Inr [], s)"
| "decorate_all k (d # ds) s = (case decorateIntent k d s of
       (Inl err, s1) \<Rightarrow> (Inl err, s1)
     | (Inr d', s1) \<Rightarrow> (case decorate_all k ds s1 of
           (Inl err, s2) \<Rightarrow> (Inl err, s2)
         | (Inr ds', s2) \<Rightarrow> (Inr (d' # ds'), s2)))"

text \<open>
  \<^verbatim>\<open>sort.Slice\<close> by key. Go's sort is not stable; this matters only between views with equal keys.
\<close>

definition sort_views :: "deployment list \<Rightarrow> deployment list" where
  "sort_views ds = sort_key (\<lambda>d. Key (d_Target d)) ds"

text \<open>The end of \<^verbatim>\<open>List\<close>, after the views were collected.\<close>

definition finish_list :: "'w kube \<Rightarrow> int \<Rightarrow> deployment list \<Rightarrow> ('w, gerror + deployment list) op" where
  "finish_list k level out s =
     (if level = 5 then (case decorate_all k out s of
          (Inl err, s1) \<Rightarrow> (Inl err, s1)
        | (Inr out', s1) \<Rightarrow> (Inr (sort_views out'), s1))
      else (Inr (sort_views out), s))"

definition Backend_List ::
  "'w kube \<Rightarrow> int \<Rightarrow> string \<Rightarrow> 'w session \<Rightarrow> ((gerror + deployment list) \<times> 'w session) option" where
  "Backend_List k level namespace s =
     (if level \<ge> 4 then
        if \<not> Synced k level s then Some (Inl cache_unsynced, s)
        else (case (if namespace = [] then cached (DeploymentLister_ListAll k) s
                    else cached (DeploymentLister_List k namespace) s) of
            (Inl err, s1) \<Rightarrow> Some (Inl (mapError k err), s1)
          | (Inr ds, s1) \<Rightarrow> Some (finish_list k level (map deployment_view ds) s1))
      else (case list_pages k namespace [] [] s of
          None \<Rightarrow> None
        | Some (Inl err, s1) \<Rightarrow> Some (Inl err, s1)
        | Some (Inr out, s1) \<Rightarrow> Some (finish_list k level out s1)))"

section \<open>Writes\<close>

definition GetTarget :: "'w kube \<Rightarrow> target \<Rightarrow> ('w, gerror + deployment) op" where
  "GetTarget k t s =
     (case request (GetDeployment (Namespace t) (Name t)) (Deployments_Get k (Namespace t) (Name t)) s of
        (Inl err, s1) \<Rightarrow> (Inl (mapError k err), s1)
      | (Inr d, s1) \<Rightarrow> (Inr (deployment_view d), s1))"

fun hpa_targets :: "string \<Rightarrow> hpa list \<Rightarrow> bool" where
  "hpa_targets name [] = False"
| "hpa_targets name (h # hs) =
     (if h_RefKind h = ''Deployment'' \<and> h_RefName h = name \<and> HasPrefix (h_RefAPIVersion h) ''apps/''
      then True else hpa_targets name hs)"

definition HasHPA :: "'w kube \<Rightarrow> target \<Rightarrow> ('w, gerror + bool) op" where
  "HasHPA k t s =
     (case request (ListHPAs (Namespace t)) (HPAs_List k (Namespace t)) s of
        (Inl err, s1) \<Rightarrow> (Inl (mapError k err), s1)
      | (Inr hs, s1) \<Rightarrow> (Inr (hpa_targets (Name t) hs), s1))"

definition checkWritable :: "'w kube \<Rightarrow> deployment \<Rightarrow> ('w, gerror option) op" where
  "checkWritable k d s =
     (if d_Deleting d then (Some (E FailedPrecondition ''deployment is being deleted'' None), s)
      else if d_Protected d then (Some (E Forbidden ''deployment is protected from scaling'' None), s)
      else (case HasHPA k (d_Target d) s of
          (Inl err, s1) \<Rightarrow> (Some err, s1)
        | (Inr hpa, s1) \<Rightarrow>
            if hpa then (Some (E FailedPrecondition ''an HPA already controls this deployment'' None), s1)
            else (None, s1)))"

text \<open>The function \<^verbatim>\<open>Set\<close> retries at levels 2 to 4.\<close>

definition Set_attempt ::
  "'w kube \<Rightarrow> deployment \<Rightarrow> target \<Rightarrow> int32 \<Rightarrow> string \<Rightarrow> ('w, gerror + set_result) op" where
  "Set_attempt k dep t n expected s =
     (case request (GetScaleOf (Namespace t) (Name t)) (Deployments_GetScale k (Namespace t) (Name t)) s of
        (Inl err, s1) \<Rightarrow> (Inl err, s1)
      | (Inr sc, s1) \<Rightarrow>
          if sc_UID sc \<noteq> d_UID dep
          then (Inl (E Conflict ''deployment was replaced; read it again'' None), s1)
          else if expected \<noteq> [] \<and> expected \<noteq> sc_ResourceVersion sc
          then (Inl (E Conflict ''deployment version has changed'' None), s1)
          else let sc' = sc\<lparr>sc_SpecReplicas := n\<rparr> in
            (case request (UpdateScaleOf (Namespace t) (Name t) sc')
                (Deployments_UpdateScale k (Namespace t) (Name t) sc') s1 of
               (Inl err, s2) \<Rightarrow> (Inl err, s2)
             | (Inr updated, s2) \<Rightarrow>
                 (Inr \<lparr>sr_Target = t, sr_Replicas = sc_SpecReplicas updated,
                    sr_Version = sc_ResourceVersion updated, sr_Accepted = False\<rparr>, s2)))"

definition Backend_Set ::
  "'w kube \<Rightarrow> int \<Rightarrow> target \<Rightarrow> int32 \<Rightarrow> string \<Rightarrow> ('w, gerror + set_result) op" where
  "Backend_Set k level t n expected s =
     (if level < 2 then (Inl (E Forbidden ''this level is read only'' None), s)
      else (case GetTarget k t s of
          (Inl err, s1) \<Rightarrow> (Inl err, s1)
        | (Inr dep, s1) \<Rightarrow> (case checkWritable k dep s1 of
              (Some err, s2) \<Rightarrow> (Inl err, s2)
            | (None, s2) \<Rightarrow>
                if level = 5 then setIntent k dep n expected s2
                else (case RetryOnConflict_set k (Set_attempt k dep t n expected) s2 of
                    (r, s3) \<Rightarrow> (map_error k r, s3)))))"

text \<open>The backend as the value of \<^verbatim>\<open>model.Backend\<close> that \<^verbatim>\<open>cmd/server\<close> gives the service.\<close>

definition kube_backend :: "'w kube \<Rightarrow> int \<Rightarrow> 'w session backend" where
  "kube_backend k level =
     \<lparr>be_Get = Backend_Get k level, be_List = Backend_List k level, be_Set = Backend_Set k level\<rparr>"

lemma kube_backend_sel [simp]:
  "be_Get (kube_backend k level) = Backend_Get k level"
  "be_List (kube_backend k level) = Backend_List k level"
  "be_Set (kube_backend k level) = Backend_Set k level"
  by (simp_all add: kube_backend_def)

section \<open>Requests of reads\<close>

text \<open>Reads of the informer caches send nothing at all; the others send read requests only.\<close>

lemma extends_decorateIntent [ext]:
  "decorateIntent k d s1 = (r, s2) \<Longrightarrow> extends P s s1 \<Longrightarrow> extends P s s2"
  by (auto simp: decorateIntent_def dest: extends_cached split: prod.splits sum.splits option.splits if_splits)

lemma extends_decorate_all [ext]:
  "decorate_all k ds s1 = (r, s2) \<Longrightarrow> extends P s s1 \<Longrightarrow> extends P s s2"
proof (induction ds arbitrary: s1 r)
  case Nil
  then show ?case by simp
next
  case (Cons d ds)
  obtain q s3 where d: "decorateIntent k d s1 = (q, s3)" by fastforce
  then have s3: "extends P s s3" using Cons.prems(2) by (rule extends_decorateIntent)
  with Cons.prems(1) d Cons.IH [OF _ s3] show ?case
    by (auto split: prod.splits sum.splits)
qed

lemma extends_finish_list [ext]:
  "finish_list k level out s1 = (r, s2) \<Longrightarrow> extends P s s1 \<Longrightarrow> extends P s s2"
  by (auto simp: finish_list_def dest: extends_decorate_all split: prod.splits sum.splits if_splits)

lemma extends_GetTarget [ext]:
  "GetTarget k t s1 = (r, s2) \<Longrightarrow> P (GetDeployment (Namespace t) (Name t)) \<Longrightarrow> extends P s s1 \<Longrightarrow> extends P s s2"
  by (auto simp: GetTarget_def intro: ext split: prod.splits sum.splits)

lemma extends_HasHPA [ext]:
  "HasHPA k t s1 = (r, s2) \<Longrightarrow> P (ListHPAs (Namespace t)) \<Longrightarrow> extends P s s1 \<Longrightarrow> extends P s s2"
  by (auto simp: HasHPA_def intro: ext split: prod.splits sum.splits)

lemma extends_checkWritable [ext]:
  "checkWritable k d s1 = (r, s2) \<Longrightarrow> P (ListHPAs (Namespace (d_Target d))) \<Longrightarrow> extends P s s1 \<Longrightarrow> extends P s s2"
  by (auto simp: checkWritable_def intro: ext split: prod.splits sum.splits if_splits)

lemma extends_Backend_Get [ext]:
  assumes "Backend_Get k level t s1 = (r, s2)"
    and "level < 4 \<Longrightarrow> P (GetDeployment (Namespace t) (Name t))" and "extends P s s1"
  shows "extends P s s2"
  using assms
  by (auto simp: Backend_Get_def dest: extends_cached extends_decorateIntent
      elim!: extends_request split: prod.splits sum.splits if_splits)

text \<open>Induction over the pages a listing reads, as far as it returns.\<close>

lemma list_pages_induct [consumes 1, case_names error last more]:
  assumes "list_pages k ns cont out s = Some (r, s')"
    and error: "\<And>c o1 s e s1. request (ListDeployments ns (page c)) (Deployments_List k ns (page c)) s = (Inl e, s1)
      \<Longrightarrow> Q c o1 s (Inl (mapError k e)) s1"
    and last: "\<And>c o1 s l s1. request (ListDeployments ns (page c)) (Deployments_List k ns (page c)) s = (Inr l, s1)
      \<Longrightarrow> dl_Continue l = [] \<Longrightarrow> Q c o1 s (Inr (o1 @ map deployment_view (dl_Items l))) s1"
    and more: "\<And>c o1 s l s1 r s'. request (ListDeployments ns (page c)) (Deployments_List k ns (page c)) s = (Inr l, s1)
      \<Longrightarrow> dl_Continue l \<noteq> [] \<Longrightarrow> Q (dl_Continue l) (o1 @ map deployment_view (dl_Items l)) s1 r s' \<Longrightarrow> Q c o1 s r s'"
  shows "Q cont out s r s'"
proof -
  let ?Q = "\<lambda>k' ns' c o1 s q. k' = k \<longrightarrow> ns' = ns \<longrightarrow> Q c o1 s (fst q) (snd q)"
  have "?Q k ns cont out s (r, s')"
  proof (rule list_pages.raw_induct [where P = ?Q, OF _ assms(1)])
    fix f k' ns' c o1 s q
    assume IH: "\<And>k' ns' c o1 s q. f k' ns' c o1 s = Some q \<Longrightarrow> ?Q k' ns' c o1 s q"
      and eq: "(case request (ListDeployments ns' (page c)) (Deployments_List k' ns' (page c)) s of
          (Inl err, s1) \<Rightarrow> Some (Inl (mapError k' err), s1)
        | (Inr l, s1) \<Rightarrow>
            if dl_Continue l = [] then Some (Inr (o1 @ map deployment_view (dl_Items l)), s1)
            else f k' ns' (dl_Continue l) (o1 @ map deployment_view (dl_Items l)) s1) = Some q"
    show "?Q k' ns' c o1 s q"
    proof (intro impI)
      assume [simp]: "k' = k" "ns' = ns"
      obtain g s1 where g: "request (ListDeployments ns (page c)) (Deployments_List k ns (page c)) s = (g, s1)"
        by fastforce
      show "Q c o1 s (fst q) (snd q)"
      proof (cases g)
        case (Inl e)
        with eq g error show ?thesis by auto
      next
        case (Inr l)
        with eq g last more IH show ?thesis by (cases "dl_Continue l = []") auto
      qed
    qed
  qed
  then show ?thesis by simp
qed

lemma extends_list_pages:
  assumes "list_pages k ns cont out s1 = Some (r, s2)"
    and P: "\<And>cont. P (ListDeployments ns (page cont))" and "extends P s s1"
  shows "extends P s s2"
  using assms(1,3)
proof (induction rule: list_pages_induct)
  case (more c o1 s1 l s3 r s2)
  then show ?case using P by (blast intro: ext)
qed (use P in \<open>blast intro: ext\<close>)+

lemma extends_Backend_List:
  assumes "Backend_List k level ns s1 = Some (r, s2)"
    and "\<And>cont. level < 4 \<Longrightarrow> P (ListDeployments ns (page cont))" and "extends P s s1"
  shows "extends P s s2"
proof (cases "level < 4")
  case True
  with assms show ?thesis
    by (auto simp: Backend_List_def dest!: extends_list_pages [where P = P and s = s] dest: extends_finish_list
        split: prod.splits sum.splits if_splits option.splits)
next
  case False
  with assms(1,3) show ?thesis
    by (auto simp: Backend_List_def dest: extends_cached [where P = P and s = s] extends_finish_list [where P = P and s = s]
        split: prod.splits sum.splits if_splits)
qed

section \<open>Requests of a direct write\<close>

text \<open>What \<^verbatim>\<open>Set\<close> sends at levels 2 to 4 once the guards have passed.\<close>

fun set_scale_request :: "deployment \<Rightarrow> target \<Rightarrow> int32 \<Rightarrow> string \<Rightarrow> api_call \<Rightarrow> bool" where
  "set_scale_request dep t n expected (GetScaleOf ns name) \<longleftrightarrow> ns = Namespace t \<and> name = Name t"
| "set_scale_request dep t n expected (UpdateScaleOf ns name sc) \<longleftrightarrow> ns = Namespace t \<and> name = Name t \<and>
     sc_UID sc = d_UID dep \<and> sc_SpecReplicas sc = n \<and> (expected = [] \<or> sc_ResourceVersion sc = expected)"
| "set_scale_request dep t n expected _ \<longleftrightarrow> False"

lemma extends_Set_attempt:
  assumes run: "Set_attempt k dep t n expected s1 = (r, s2)"
    and s1: "extends (set_scale_request dep t n expected) s s1"
  shows "extends (set_scale_request dep t n expected) s s2"
proof -
  let ?P = "set_scale_request dep t n expected"
  obtain g s0 where get: "request (GetScaleOf (Namespace t) (Name t)) (Deployments_GetScale k (Namespace t) (Name t)) s1 = (g, s0)"
    by fastforce
  then have s0: "extends ?P s s0" by (rule extends_request) (simp_all add: s1)
  have next_request: "extends ?P s s3" if "request c f s0 = (q, s3)" and "?P c" for c f q s3
    using that s0 by (rule extends_request)
  from run get s0 show ?thesis
    by (cases g) (auto simp: Set_attempt_def Let_def intro!: next_request split: prod.splits sum.splits if_splits)
qed

text \<open>The guards of a write, on the view they were evaluated on.\<close>

lemma checkWritable_passed:
  "checkWritable k d s = (None, s') \<Longrightarrow>
     \<not> d_Deleting d \<and> \<not> d_Protected d \<and> HasHPA k (d_Target d) s = (Inr False, s')"
  by (auto simp: checkWritable_def split: prod.splits sum.splits if_splits)

context kube_client
begin

lemma GetTarget_target: "GetTarget k t s = (Inr d, s') \<Longrightarrow> d_Target d = t"
  by (auto simp: GetTarget_def deployment_view_def dest!: request_world get_deployment_named
      split: prod.splits sum.splits)

lemma Set_last:
  assumes "RetryOnConflict_set k (Set_attempt k dep t n expected) s = (r, s')"
  obtains s0 where "Set_attempt k dep t n expected s0 = (r, s')"
    and "extends (set_scale_request dep t n expected) s s0"
proof -
  have "\<exists>s0. extends (set_scale_request dep t n expected) s s0 \<and> Set_attempt k dep t n expected s0 = (r, s')"
    by (rule retries_last [OF retry_conflict_set assms]) (auto intro: extends_Set_attempt)
  with that show thesis by blast
qed

text \<open>
  Every branch of \<^verbatim>\<open>Set\<close>: it stops at a guard having only read, or the guards passed on a live
  view of the target and the rest sends the requests of a direct or of an intent write.
\<close>

lemma Backend_Set_cases:
  assumes "Backend_Set k level t n expected s = (r, s')"
  obtains (stopped) e where "r = Inl e" and "extends (\<lambda>c. \<not> is_write c) s s'"
  | (intent) dep s1 s2 where "level = 5" and "GetTarget k t s = (Inr dep, s1)" and "d_Target dep = t"
      and "checkWritable k dep s1 = (None, s2)" and "extends (\<lambda>c. \<not> is_write c) s s2"
      and "setIntent k dep n expected s2 = (r, s')"
  | (direct) dep s1 s2 r0 s0 where "2 \<le> level" and "level \<noteq> 5" and "GetTarget k t s = (Inr dep, s1)"
      and "d_Target dep = t" and "checkWritable k dep s1 = (None, s2)" and "extends (\<lambda>c. \<not> is_write c) s s2"
      and "Set_attempt k dep t n expected s0 = (r0, s')" and "r = map_error k r0"
      and "extends (set_scale_request dep t n expected) s2 s0"
proof (cases "level < 2")
  case True
  with assms show thesis by (auto simp: Backend_Set_def intro: stopped)
next
  case False
  obtain g s1 where g: "GetTarget k t s = (g, s1)" by fastforce
  then have s1: "extends (\<lambda>c. \<not> is_write c) s s1" by (auto intro: ext)
  show thesis
  proof (cases g)
    case (Inl e)
    with assms False g s1 show thesis by (auto simp: Backend_Set_def intro: stopped)
  next
    case (Inr dep)
    obtain w s2 where w: "checkWritable k dep s1 = (w, s2)" by fastforce
    then have s2: "extends (\<lambda>c. \<not> is_write c) s s2" using s1 by (auto intro: ext)
    have t: "d_Target dep = t" using g Inr GetTarget_target by simp
    show thesis
    proof (cases w)
      case (Some e)
      with assms False g Inr w s2 show thesis by (auto simp: Backend_Set_def intro: stopped)
    next
      case None
      show thesis
      proof (cases "level = 5")
        case True
        with assms g Inr w None s2 t intent show thesis by (simp add: Backend_Set_def)
      next
        case False
        then obtain r0 where "RetryOnConflict_set k (Set_attempt k dep t n expected) s2 = (r0, s')"
          and r: "r = map_error k r0"
          using assms \<open>\<not> level < 2\<close> g Inr w None by (auto simp: Backend_Set_def split: prod.splits)
        then obtain s0 where "Set_attempt k dep t n expected s0 = (r0, s')"
          and "extends (set_scale_request dep t n expected) s2 s0"
          by (elim Set_last)
        with False \<open>\<not> level < 2\<close> g Inr w None s2 t r direct show thesis by simp
      qed
    qed
  qed
qed

section \<open>Codes of the backend's failures\<close>

lemma decorateIntent_known: "decorateIntent k d s = (Inl e, s') \<Longrightarrow> known e"
  by (auto simp: decorateIntent_def dest: parseIntent_known foreign_cached [OF foreign_intent_lister]
      split: prod.splits sum.splits option.splits if_splits)

lemma decorate_all_known: "decorate_all k ds s = (Inl e, s') \<Longrightarrow> known e"
  by (induction ds arbitrary: s) (auto dest: decorateIntent_known split: prod.splits sum.splits)

lemma Backend_Get_known: "Backend_Get k level t s = (Inl e, s') \<Longrightarrow> known e"
  by (auto simp: Backend_Get_def cache_unsynced_def
      dest: decorateIntent_known foreign_cached [OF foreign_lister_get] foreign_request [OF foreign_get]
      split: prod.splits sum.splits if_splits)

lemma list_pages_known:
  assumes "list_pages k ns cont out s = Some (Inl e, s')"
  shows "known e"
proof -
  have "case Inl e of Inl e \<Rightarrow> known e | Inr (_ :: deployment list) \<Rightarrow> True"
    using assms by (induction rule: list_pages_induct) (auto dest: foreign_request [OF foreign_list])
  then show ?thesis by simp
qed

lemma Backend_List_known: "Backend_List k level ns s = Some (Inl e, s') \<Longrightarrow> known e"
  by (auto simp: Backend_List_def finish_list_def cache_unsynced_def
      dest: list_pages_known decorate_all_known foreign_cached [OF foreign_lister_all] foreign_cached [OF foreign_lister_list]
      split: prod.splits sum.splits if_splits option.splits)

lemma HasHPA_known: "HasHPA k t s = (Inl e, s') \<Longrightarrow> known e"
  by (auto simp: HasHPA_def dest: foreign_request [OF foreign_hpas] split: prod.splits sum.splits)

lemma GetTarget_known: "GetTarget k t s = (Inl e, s') \<Longrightarrow> known e"
  by (auto simp: GetTarget_def dest: foreign_request [OF foreign_get] split: prod.splits sum.splits)

lemma checkWritable_known: "checkWritable k d s = (Some e, s') \<Longrightarrow> known e"
  by (auto simp: checkWritable_def dest: HasHPA_known split: prod.splits sum.splits if_splits)

lemma Set_attempt_known: "Set_attempt k dep t n expected s = (Inl e, s') \<Longrightarrow> known e"
  by (auto simp: Set_attempt_def Let_def
      dest: foreign_request [OF foreign_get_scale] foreign_request [OF foreign_update_scale]
      split: prod.splits sum.splits if_splits)

lemma Set_attempt_result:
  "Set_attempt k dep t n expected s = (Inr r, s') \<Longrightarrow> sr_Target r = t \<and> \<not> sr_Accepted r"
  by (auto simp: Set_attempt_def Let_def split: prod.splits sum.splits if_splits)

lemma set_scale_carries: "set_scale_request dep t n expected c \<Longrightarrow> \<not> is_write c \<or> kube_carries c t n"
  by (cases c) auto

lemma set_intent_carries: "set_intent_request k dep n expected c \<Longrightarrow> \<not> is_write c \<or> kube_carries c (d_Target dep) n"
  by (cases c) (auto simp: new_intent_paths)

lemma extends_Backend_Set:
  assumes "Backend_Set k level t n expected s = (r, s')"
  shows "extends (\<lambda>c. \<not> is_write c \<or> kube_carries c t n) s s'"
  using assms
proof (cases rule: Backend_Set_cases)
  case (stopped e)
  then show ?thesis by (auto elim: extends_mono)
next
  case (intent dep s1 s2)
  then have "extends (\<lambda>c. \<not> is_write c \<or> kube_carries c t n) s2 s'"
    using extends_setIntent set_intent_carries by (blast intro: extends_mono)
  moreover have "extends (\<lambda>c. \<not> is_write c \<or> kube_carries c t n) s s2"
    using intent by (auto elim: extends_mono)
  ultimately show ?thesis by (rule extends_trans [rotated])
next
  case (direct dep s1 s2 r0 s0)
  then have "extends (set_scale_request dep t n expected) s2 s'"
    by (blast intro: extends_Set_attempt)
  then have "extends (\<lambda>c. \<not> is_write c \<or> kube_carries c t n) s2 s'"
    using set_scale_carries by (blast intro: extends_mono)
  moreover have "extends (\<lambda>c. \<not> is_write c \<or> kube_carries c t n) s s2"
    using direct by (auto elim: extends_mono)
  ultimately show ?thesis by (rule extends_trans [rotated])
qed

lemma Backend_Set_result:
  assumes "Backend_Set k level t n expected s = (Inr r, s')"
  shows "sr_Target r = t" and "sr_Accepted r \<longleftrightarrow> level = 5" and "level = 5 \<Longrightarrow> sr_Replicas r = n"
  using assms
  by (cases rule: Backend_Set_cases; auto dest: setIntent_result Set_attempt_result simp: accepted_def)+

lemma Backend_Set_known: "Backend_Set k level t n expected s = (Inl e, s') \<Longrightarrow> known e"
  by (auto simp: Backend_Set_def dest: GetTarget_known checkWritable_known setIntent_known Set_attempt_known
      split: prod.splits sum.splits option.splits if_splits elim!: Set_last)

end

text \<open>The backend keeps the contract its callers rely on, at every level.\<close>

lemma Backend_List_sorted:
  "Backend_List k level ns s = Some (Inr ds, s') \<Longrightarrow> sorted (map (\<lambda>d. Key (d_Target d)) ds)"
  by (auto simp: Backend_List_def finish_list_def sort_views_def
      split: prod.splits sum.splits if_splits option.splits)

sublocale kube_client \<subseteq> bk: backend_contract "kube_backend k level" writes kube_carries for level :: int
proof unfold_locales
  show "writes s' = writes s" if "be_Get (kube_backend k level) t s = (g, s')" for t s g s'
    using that by (intro extends_reads) (auto intro: ext)
  show "writes s' = writes s" if "be_List (kube_backend k level) ns s = Some (l, s')" for ns s l s'
    using that by (intro extends_reads) (auto intro: extends_Backend_List)
  show "\<exists>ws. writes s' = writes s @ ws \<and> list_all (\<lambda>w. kube_carries w t n) ws"
    if "be_Set (kube_backend k level) t n v s = (q, s')" for t n v s q s'
  proof -
    have "extends (\<lambda>c. \<not> is_write c \<or> kube_carries c t n) s s'"
      using that by (intro extends_Backend_Set) simp
    from extends_writes [OF this] show ?thesis by (auto simp: list_all_iff)
  qed
qed (auto simp: known_def [symmetric] dest: Backend_Get_known Backend_List_known Backend_Set_known
    Backend_Set_result Backend_List_sorted)

context kube_client
begin

lemma backend_ok: "backend_contract (kube_backend k level) writes kube_carries"
  by (rule bk.backend_contract_axioms)

end

end
