(* ===== verification/Ref_Cluster.thy ===== *)
theory Ref_Cluster
  imports Kube_Client
begin

text \<open>
  An executable client over an in-memory cluster that behaves as the API documents it: objects are
  found by namespace and name, every write needs the current resource version and yields a new
  one, a change of a spec raises the generation, listings come in pages of two, listers see the
  stored objects, and the retry helpers make four attempts. It is the instance at which the
  theorems about arbitrary clients are applied, and the proof that the documented behaviour
  assumed of a client (\<open>kube_client\<close>) can be met.
\<close>

section \<open>Nested fields\<close>

fun put_path :: "gobject \<Rightarrow> gval \<Rightarrow> string list \<Rightarrow> gobject option" where
  "put_path obj x [] = None"
| "put_path obj x [f] = Some (map_put f x obj)"
| "put_path obj x (f # g # fs) =
     (case map_of obj f of
        Some (VMap m) \<Rightarrow> map_option (\<lambda>m'. map_put f (VMap m') obj) (put_path m x (g # fs))
      | Some _ \<Rightarrow> None
      | None \<Rightarrow> map_option (\<lambda>m'. map_put f (VMap m') obj) (put_path [] x (g # fs)))"

lemma put_path_same: "put_path obj x p = Some obj' \<Longrightarrow> at_path obj' p = Some x"
  by (induction obj x p arbitrary: obj' rule: put_path.induct)
     (auto simp: at_path.simps split: option.splits gval.splits)

lemma at_path_Nil [simp]: "at_path [] q = None"
  by (induction "[] :: gobject" q rule: at_path.induct) (simp_all add: at_path.simps)

lemma put_path_other:
  "put_path obj x p = Some obj' \<Longrightarrow> \<not> prefix p q \<Longrightarrow> \<not> prefix q p \<Longrightarrow> at_path obj' q = at_path obj q"
proof (induction obj x p arbitrary: obj' q rule: put_path.induct)
  case (2 obj x f)
  then show ?case by (cases q rule: at_path.cases [of "(obj, q)" for q, simplified]) (auto simp: at_path.simps)
next
  case (3 obj x f g fs)
  obtain a q' where q: "q = a # q'" using "3.prems" by (cases q) auto
  show ?case
  proof (cases "a = f")
    case False
    with "3.prems" q show ?thesis
      by (cases q') (auto simp: at_path.simps split: option.splits gval.splits)
  next
    case True
    with "3.prems" q obtain b q'' where q': "q' = b # q''" by (cases q') auto
    from "3.prems" q q' True "3.IH" show ?thesis
      by (auto simp: at_path.simps split: option.splits gval.splits)
  qed
qed simp

definition set_path :: "gobject \<Rightarrow> gval \<Rightarrow> string list \<Rightarrow> gobject" where
  "set_path obj x p = (case put_path obj x p of None \<Rightarrow> obj | Some obj' \<Rightarrow> obj')"

lemma set_path_other: "unrelated p q \<Longrightarrow> at_path (set_path obj x p) q = at_path obj q"
  by (auto simp: set_path_def unrelated_def put_path_other split: option.split)

section \<open>The cluster\<close>

record cluster =
  cl_deployments :: "apps_deployment list"
  cl_hpas :: "hpa list"
  cl_intents :: "unstructured list"
  cl_clock :: nat

definition version_string :: "nat \<Rightarrow> string" where
  "version_string n = replicate n (CHR ''v'')"

definition not_found :: gerror where "not_found = OtherError ''NotFound''"
definition conflict :: gerror where "conflict = OtherError ''Conflict''"
definition already_exists :: gerror where "already_exists = OtherError ''AlreadyExists''"

lemmas ref_errors = not_found_def conflict_def already_exists_def

fun find_dep :: "string \<Rightarrow> string \<Rightarrow> apps_deployment list \<Rightarrow> apps_deployment option" where
  "find_dep ns n [] = None"
| "find_dep ns n (d # ds) = (if ad_Namespace d = ns \<and> ad_Name d = n then Some d else find_dep ns n ds)"

fun replace_dep :: "apps_deployment \<Rightarrow> apps_deployment list \<Rightarrow> apps_deployment list" where
  "replace_dep e [] = []"
| "replace_dep e (d # ds) = (if ad_Namespace d = ad_Namespace e \<and> ad_Name d = ad_Name e then e # ds else d # replace_dep e ds)"

definition u_name :: "unstructured \<Rightarrow> string" where
  "u_name u = string_at (u_Object u) [''metadata'', ''name'']"

definition u_namespace :: "unstructured \<Rightarrow> string" where
  "u_namespace u = string_at (u_Object u) [''metadata'', ''namespace'']"

definition u_version :: "unstructured \<Rightarrow> string" where
  "u_version u = string_at (u_Object u) [''metadata'', ''resourceVersion'']"

definition u_generation :: "unstructured \<Rightarrow> int64" where
  "u_generation u = int_at (u_Object u) [''metadata'', ''generation'']"

fun find_intent :: "string \<Rightarrow> string \<Rightarrow> unstructured list \<Rightarrow> unstructured option" where
  "find_intent ns n [] = None"
| "find_intent ns n (u # us) = (if u_namespace u = ns \<and> u_name u = n then Some u else find_intent ns n us)"

fun replace_intent :: "unstructured \<Rightarrow> unstructured list \<Rightarrow> unstructured list" where
  "replace_intent e [] = []"
| "replace_intent e (u # us) =
     (if u_namespace u = u_namespace e \<and> u_name u = u_name e then e # us else u # replace_intent e us)"

section \<open>Operations\<close>

definition lookup_dep :: "string \<Rightarrow> string \<Rightarrow> cluster \<Rightarrow> gerror + apps_deployment" where
  "lookup_dep ns n w = (case find_dep ns n (cl_deployments w) of None \<Rightarrow> Inl not_found | Some d \<Rightarrow> Inr d)"

definition in_namespace :: "string \<Rightarrow> apps_deployment list \<Rightarrow> apps_deployment list" where
  "in_namespace ns ds = (if ns = [] then ds else filter (\<lambda>d. ad_Namespace d = ns) ds)"

definition list_page :: "string \<Rightarrow> list_options \<Rightarrow> cluster \<Rightarrow> deployment_list" where
  "list_page ns opts w =
     (let i = length (lo_Continue opts); ds = in_namespace ns (cl_deployments w)
      in \<lparr>dl_Items = take 2 (drop i ds),
          dl_Continue = (if i + 2 < length ds then replicate (i + 2) (CHR ''c'') else [])\<rparr>)"

definition scale_of :: "apps_deployment \<Rightarrow> scale" where
  "scale_of d = \<lparr>sc_UID = ad_UID d, sc_ResourceVersion = ad_ResourceVersion d,
     sc_SpecReplicas = (case ad_SpecReplicas d of Some n \<Rightarrow> n | None \<Rightarrow> 1)\<rparr>"

definition ref_update_scale :: "string \<Rightarrow> string \<Rightarrow> scale \<Rightarrow> cluster \<Rightarrow> (gerror + scale) \<times> cluster" where
  "ref_update_scale ns n sc w = (case lookup_dep ns n w of
       Inl e \<Rightarrow> (Inl e, w)
     | Inr d \<Rightarrow>
         if sc_ResourceVersion sc \<noteq> ad_ResourceVersion d \<or> sc_UID sc \<noteq> ad_UID d then (Inl conflict, w)
         else let d' = d\<lparr>ad_SpecReplicas := Some (sc_SpecReplicas sc), ad_Generation := ad_Generation d + 1,
                 ad_ResourceVersion := version_string (cl_clock w)\<rparr>
           in (Inr (scale_of d'), w\<lparr>cl_deployments := replace_dep d' (cl_deployments w), cl_clock := Suc (cl_clock w)\<rparr>))"

definition stamp :: "nat \<Rightarrow> int64 \<Rightarrow> unstructured \<Rightarrow> unstructured" where
  "stamp n gen u = \<lparr>u_Object = set_path (set_path (u_Object u) (VString (version_string n)) [''metadata'', ''resourceVersion''])
     (VInt gen) [''metadata'', ''generation'']\<rparr>"

definition lookup_intent :: "string \<Rightarrow> string \<Rightarrow> cluster \<Rightarrow> gerror + unstructured" where
  "lookup_intent ns n w = (case find_intent ns n (cl_intents w) of None \<Rightarrow> Inl not_found | Some u \<Rightarrow> Inr u)"

definition ref_create_intent :: "string \<Rightarrow> unstructured \<Rightarrow> cluster \<Rightarrow> (gerror + unstructured) \<times> cluster" where
  "ref_create_intent ns u w = (case lookup_intent ns (u_name u) w of
       Inr _ \<Rightarrow> (Inl already_exists, w)
     | Inl _ \<Rightarrow>
         let u' = stamp (cl_clock w) 1
             \<lparr>u_Object = set_path (u_Object u) (VString (''uid-'' @ version_string (cl_clock w))) [''metadata'', ''uid'']\<rparr>
         in (Inr u', w\<lparr>cl_intents := u' # cl_intents w, cl_clock := Suc (cl_clock w)\<rparr>))"

definition ref_update_intent :: "string \<Rightarrow> unstructured \<Rightarrow> cluster \<Rightarrow> (gerror + unstructured) \<times> cluster" where
  "ref_update_intent ns u w = (case lookup_intent ns (u_name u) w of
       Inl e \<Rightarrow> (Inl e, w)
     | Inr old \<Rightarrow>
         if u_version u \<noteq> u_version old then (Inl conflict, w)
         else let u' = stamp (cl_clock w) (u_generation old + 1) u
           in (Inr u', w\<lparr>cl_intents := replace_intent u' (cl_intents w), cl_clock := Suc (cl_clock w)\<rparr>))"

definition ref_update_status :: "string \<Rightarrow> unstructured \<Rightarrow> cluster \<Rightarrow> (gerror + unstructured) \<times> cluster" where
  "ref_update_status ns u w = (case lookup_intent ns (u_name u) w of
       Inl e \<Rightarrow> (Inl e, w)
     | Inr old \<Rightarrow>
         if u_version u \<noteq> u_version old then (Inl conflict, w)
         else let st = (case map_of (u_Object u) ''status'' of None \<Rightarrow> VNull | Some v \<Rightarrow> v);
                  u' = stamp (cl_clock w) (u_generation old) \<lparr>u_Object = map_put ''status'' st (u_Object old)\<rparr>
           in (Inr u', w\<lparr>cl_intents := replace_intent u' (cl_intents w), cl_clock := Suc (cl_clock w)\<rparr>))"

definition owner_value :: "owner_reference \<Rightarrow> gval" where
  "owner_value r = VMap [(''apiVersion'', VString (or_APIVersion r)), (''kind'', VString (or_Kind r)),
     (''name'', VString (or_Name r)), (''uid'', VString (or_UID r))]"

definition type_error :: gerror where
  "type_error = OtherError ''accessor error''"

definition ref_client :: "cluster kube" where
  "ref_client =
     \<lparr>Deployments_Get = (\<lambda>ns n w. (lookup_dep ns n w, w)),
      Deployments_List = (\<lambda>ns opts w. (Inr (list_page ns opts w), w)),
      Deployments_GetScale = (\<lambda>ns n w. (map_sum id scale_of (lookup_dep ns n w), w)),
      Deployments_UpdateScale = ref_update_scale,
      HPAs_List = (\<lambda>ns w. (Inr (filter (\<lambda>h. h_Namespace h = ns) (cl_hpas w)), w)),
      Intents_Get = (\<lambda>ns n w. (lookup_intent ns n w, w)),
      Intents_Create = ref_create_intent,
      Intents_Update = ref_update_intent,
      Intents_UpdateStatus = ref_update_status,
      Intents_List = (\<lambda>ns opts w. (Inr (cl_intents w), w)),
      DeploymentLister_Get = (\<lambda>ns n w. (lookup_dep ns n w, w)),
      DeploymentLister_List = (\<lambda>ns w. (Inr (in_namespace ns (cl_deployments w)), w)),
      DeploymentLister_ListAll = (\<lambda>w. (Inr (cl_deployments w), w)),
      IntentLister_Get = (\<lambda>ns n w. (map_sum id Some (lookup_intent ns n w), w)),
      Deployments_HasSynced = (\<lambda>w. True), Intents_HasSynced = (\<lambda>w. True), HPAs_HasSynced = (\<lambda>w. True),
      IsNotFound = (\<lambda>e. e = not_found), IsAlreadyExists = (\<lambda>e. e = already_exists),
      IsConflict = (\<lambda>e. e = conflict), IsForbidden = (\<lambda>e. False), IsUnauthorized = (\<lambda>e. False),
      IsInvalid = (\<lambda>e. False), IsBadRequest = (\<lambda>e. False),
      NestedString = (\<lambda>obj p. case at_path obj p of
          None \<Rightarrow> ([], False, None) | Some (VString v) \<Rightarrow> (v, True, None) | Some _ \<Rightarrow> ([], False, Some type_error)),
      NestedInt64 = (\<lambda>obj p. case at_path obj p of
          None \<Rightarrow> (0, False, None) | Some (VInt n) \<Rightarrow> (n, True, None) | Some _ \<Rightarrow> (0, False, Some type_error)),
      NestedMap = (\<lambda>obj p. case at_path obj p of
          None \<Rightarrow> ([], False, None) | Some (VMap m) \<Rightarrow> (m, True, None) | Some _ \<Rightarrow> ([], False, Some type_error)),
      SetNestedField = (\<lambda>obj x p. case put_path obj x p of None \<Rightarrow> Inl type_error | Some obj' \<Rightarrow> Inr obj'),
      SetOwnerReferences = (\<lambda>u rs. \<lparr>u_Object = set_path (u_Object u) (VList (map owner_value rs)) [''metadata'', ''ownerReferences'']\<rparr>),
      GetName = u_name, GetNamespace = u_namespace,
      GetUID = (\<lambda>u. string_at (u_Object u) [''metadata'', ''uid'']),
      GetResourceVersion = u_version, GetGeneration = u_generation,
      GetDeletionTimestamp = (\<lambda>u. case at_path (u_Object u) [''metadata'', ''deletionTimestamp''] of
          Some (VString v) \<Rightarrow> Some v | _ \<Rightarrow> None),
      RetryOnConflict_set = (\<lambda>f. attempts (\<lambda>e. e = conflict) f 3),
      RetryOnConflict_status = (\<lambda>f. attempts (\<lambda>e. e = conflict) f 3),
      OnError_set = (\<lambda>p f. attempts p f 3)\<rparr>"

lemmas ref_ops = lookup_dep_def lookup_intent_def ref_update_scale_def ref_create_intent_def
  ref_update_intent_def ref_update_status_def

lemma find_dep_named: "find_dep ns n ds = Some d \<Longrightarrow> ad_Namespace d = ns \<and> ad_Name d = n"
  by (induction ds) (auto split: if_splits)

interpretation ref: kube_client ref_client
proof unfold_locales
  show "Deployments_Get ref_client ns n w = (Inr d, w') \<Longrightarrow> ad_Namespace d = ns \<and> ad_Name d = n" for ns n w d w'
    by (auto simp: ref_client_def ref_ops find_dep_named split: option.splits)
qed (auto simp: ref_client_def retries_def ref_errors ref_ops foreign_def Let_def type_error_def
    string_at_def u_name_def u_namespace_def u_version_def u_generation_def put_path_same put_path_other unrelated_def set_path_other
    split: option.splits gval.splits if_splits sum.splits)

section \<open>Sample states\<close>

definition sample_deployment :: "string \<Rightarrow> string \<Rightarrow> apps_deployment" where
  "sample_deployment ns n =
     \<lparr>ad_Namespace = ns, ad_Name = n, ad_UID = ''uid-of-'' @ n, ad_ResourceVersion = ''v'',
      ad_Generation = 1, ad_DeletionTimestamp = None, ad_Annotations = [], ad_SpecReplicas = Some 2,
      ad_StatusReadyReplicas = 2, ad_StatusAvailableReplicas = 2, ad_StatusObservedGeneration = 1\<rparr>"

definition shop_web :: target where
  "shop_web = mk_target ''shop'' ''web''"

text \<open>Three Deployments, one of them in another namespace; no intent.\<close>

definition shop :: "cluster session" where
  "shop = \<lparr>world = \<lparr>cl_deployments = [sample_deployment ''shop'' ''web'', sample_deployment ''shop'' ''api'',
       sample_deployment ''bank'' ''web''], cl_hpas = [], cl_intents = [], cl_clock = 2\<rparr>, calls = []\<rparr>"

text \<open>An intent for a count, with the UID of the Deployment it belongs to.\<close>

definition sample_intent :: "string \<Rightarrow> int64 \<Rightarrow> unstructured" where
  "sample_intent uid n = \<lparr>u_Object =
     [(''metadata'', VMap [(''name'', VString ''web''), (''namespace'', VString ''shop''), (''uid'', VString ''uid-of-intent''),
         (''resourceVersion'', VString ''v''), (''generation'', VInt 1)]),
      (''spec'', VMap [(''deploymentName'', VString ''web''), (''deploymentUID'', VString uid), (''replicas'', VInt n)])]\<rparr>"

definition shop_with :: "unstructured \<Rightarrow> cluster session" where
  "shop_with u = shop\<lparr>world := (world shop)\<lparr>cl_intents := [u]\<rparr>\<rparr>"

end
