(* ===== verification/Write_Safety.thy ===== *)
theory Write_Safety
  imports Kube_Backend Ref_Cluster
begin

text \<open>
  What a Set can do to the cluster: the properties of \<^verbatim>\<open>service.Set\<close> and \<^verbatim>\<open>kube.Backend.Set\<close> over
  every client that behaves as documented. Each is applied to the reference cluster once.
\<close>

section \<open>Shared facts\<close>

text \<open>The write requests of a Set after its guards, by level.\<close>

definition set_write :: "'w kube \<Rightarrow> int \<Rightarrow> deployment \<Rightarrow> target \<Rightarrow> int32 \<Rightarrow> string \<Rightarrow> api_call \<Rightarrow> bool" where
  "set_write k level dep t n expected c \<longleftrightarrow> is_write c \<and>
     (if level = 5 then set_intent_request k dep n expected c else set_scale_request dep t n expected c)"

lemma set_write_scale:
  "set_write k 5 dep t n expected c \<Longrightarrow> \<not> is_scale_write c"
  "set_write k level dep t n expected c \<Longrightarrow> level \<noteq> 5 \<Longrightarrow> is_scale_write c"
  by (cases c; auto simp: set_write_def split: if_splits)+

lemma scale_writes_writes: "scale_writes s = filter is_scale_write (writes s)"
proof -
  have "is_write c \<and> is_scale_write c \<longleftrightarrow> is_scale_write c" for c by (cases c) auto
  then show ?thesis by (simp add: log_defs)
qed

context kube_client
begin

lemma Backend_Set_written:
  assumes "Backend_Set k level t n expected s = (r, s')"
  shows "(\<exists>e. r = Inl e) \<and> writes s' = writes s \<or>
    (\<exists>dep s1 s2 ws. 2 \<le> level \<and> GetTarget k t s = (Inr dep, s1) \<and> d_Target dep = t \<and>
       checkWritable k dep s1 = (None, s2) \<and> writes s' = writes s @ ws \<and>
       list_all (set_write k level dep t n expected) ws)"
  using assms
proof (cases rule: Backend_Set_cases)
  case (stopped e)
  then show ?thesis by (auto dest: extends_reads)
next
  case (intent dep s1 s2)
  then obtain ws where "writes s' = writes s2 @ ws" "list_all (\<lambda>c. set_intent_request k dep n expected c \<and> is_write c) ws"
    using extends_writes [OF extends_setIntent] by blast
  moreover have "writes s2 = writes s" using intent by (auto dest: extends_reads)
  ultimately show ?thesis using intent by (auto simp: set_write_def list_all_iff)
next
  case (direct dep s1 s2 r0 s0)
  then have "extends (set_scale_request dep t n expected) s2 s'" by (blast intro: extends_Set_attempt)
  then obtain ws where "writes s' = writes s2 @ ws" "list_all (\<lambda>c. set_scale_request dep t n expected c \<and> is_write c) ws"
    using extends_writes by blast
  moreover have "writes s2 = writes s" using direct by (auto dest: extends_reads)
  ultimately show ?thesis using direct by (auto simp: set_write_def list_all_iff)
qed

text \<open>What a successful attempt has done last.\<close>

lemma Set_attempt_done:
  assumes "Set_attempt k dep t n expected s = (Inr r, s')"
  shows "kube_carries (last (calls s')) t n"
  using assms
  by (auto simp: Set_attempt_def Let_def dest!: calls_request split: prod.splits sum.splits if_splits)

lemma set_intent_writes: "set_intent_request k dep n expected c \<Longrightarrow> is_write c \<Longrightarrow> kube_carries c (d_Target dep) n"
  using set_intent_carries by blast

lemma setIntent_attempt_done:
  assumes "setIntent_attempt k dep n expected s = (Inr r, s')"
  shows "kube_carries (last (calls s')) (d_Target dep) n \<or>
    (\<exists>w u i. Intents_Get k (Namespace (d_Target dep)) (Name (d_Target dep)) w = (Inr u, world s') \<and>
       parseIntent k u = Inr i \<and> \<not> i_Deleting i \<and> i_DeploymentUID i = d_UID dep \<and> i_Replicas i = n \<and>
       sr_Version r = GetResourceVersion k u)"
proof -
  let ?ns = "Namespace (d_Target dep)" and ?name = "Name (d_Target dep)"
  obtain g s1 where get: "request (GetIntentObject ?ns ?name) (Intents_Get k ?ns ?name) s = (g, s1)" by fastforce
  show ?thesis
  proof (cases g)
    case (Inl e)
    with assms get show ?thesis
      by (auto simp: setIntent_attempt_def Let_def new_intent_paths dest!: calls_request
          split: prod.splits sum.splits if_splits)
  next
    case (Inr u)
    with assms get obtain i where i: "parseIntent k u = Inr i" "\<not> i_Deleting i" "i_DeploymentUID i = d_UID dep"
      by (auto simp: setIntent_attempt_def Let_def split: sum.splits if_splits)
    show ?thesis
    proof (cases "i_Replicas i = n")
      case True
      with assms get Inr i have "s' = s1" "sr_Version r = GetResourceVersion k u"
        by (auto simp: setIntent_attempt_def Let_def accepted_def split: if_splits)
      with True i Inr request_world [OF get] show ?thesis by blast
    next
      case False
      with assms get Inr i obtain obj u' where
        set: "SetNestedField k (u_Object u) (VInt (int64_of n)) [''spec'', ''replicas''] = Inr obj"
        and up: "request (UpdateIntent ?ns \<lparr>u_Object = obj\<rparr>) (Intents_Update k ?ns \<lparr>u_Object = obj\<rparr>) s1 = (Inr u', s')"
        by (auto simp: setIntent_attempt_def Let_def split: prod.splits sum.splits if_splits)
      with calls_request [OF up] set_nested [OF set] show ?thesis by simp
    qed
  qed
qed

end

section \<open>Properties\<close>




text \<open>
  C7. A Set writes only when the level allows writing and the guards passed on a live read of the
  target: it is not being deleted, not protected, and no HPA controls it.
\<close>

theorem set_only_writable:
  assumes "kube_client k" and "Backend_Set k level t n expected s = (r, s')" and "writes s' \<noteq> writes s"
  shows "2 \<le> level \<and> (\<exists>dep s1 s2. GetTarget k t s = (Inr dep, s1) \<and> d_Target dep = t \<and>
    \<not> d_Deleting dep \<and> \<not> d_Protected dep \<and> HasHPA k t s1 = (Inr False, s2))"
  using kube_client.Backend_Set_written [OF assms(1,2)] assms(3) by (auto dest!: checkWritable_passed)

theorem set_only_writable_witness:
  "\<exists>dep s1 s2. GetTarget ref_client shop_web shop = (Inr dep, s1) \<and> \<not> d_Protected dep \<and>
     HasHPA ref_client shop_web s1 = (Inr False, s2)"
proof -
  let ?run = "Backend_Set ref_client 5 shop_web 5 [] shop"
  have "writes (snd ?run) \<noteq> writes shop" by code_simp
  then show ?thesis
    using set_only_writable [OF ref.kube_client_axioms, of 5 shop_web 5 "[]" shop "fst ?run" "snd ?run"] by auto
qed

text \<open>
  C6. Every write of a Set is tied to the instance the guards saw and to the expected version: a
  direct write carries the UID of the Deployment read and, if a version is expected, that version;
  an intent is created only when no version is expected, and updated only if it belongs to that
  UID and, if a version is expected, has that version.
\<close>

theorem set_conditional:
  assumes "kube_client k" and "Backend_Set k level t n expected s = (r, s')" and "GetTarget k t s = (Inr dep, s1)"
  shows "\<exists>ws. writes s' = writes s @ ws \<and> list_all (\<lambda>c. is_write c \<and>
    (if level = 5 then set_intent_request k dep n expected c else set_scale_request dep t n expected c)) ws"
  using kube_client.Backend_Set_written [OF assms(1,2)] assms(3) by (auto simp: set_write_def list_all_iff)

theorem set_conditional_witness:
  "\<exists>ws sc. writes (snd (Backend_Set ref_client 4 shop_web 7 ''v'' shop)) = ws @ [UpdateScaleOf ''shop'' ''web'' sc] \<and>
     sc_UID sc = ''uid-of-web'' \<and> sc_ResourceVersion sc = ''v'' \<and> sc_SpecReplicas sc = 7"
proof -
  let ?run = "Backend_Set ref_client 4 shop_web 7 ''v'' shop" and ?dep = "deployment_view (sample_deployment ''shop'' ''web'')"
  have g: "fst (GetTarget ref_client shop_web shop) = Inr ?dep" "d_UID ?dep = ''uid-of-web''" "writes shop = []"
    "length (writes (snd ?run)) = 1" "Namespace shop_web = ''shop''" "Name shop_web = ''web''" by code_simp+
  then have "GetTarget ref_client shop_web shop = (Inr ?dep, snd (GetTarget ref_client shop_web shop))"
    by (metis prod.collapse)
  then obtain c where "writes (snd ?run) = [c]" "is_write c" "set_scale_request ?dep shop_web 7 ''v'' c"
    using set_conditional [OF ref.kube_client_axioms, of 4 shop_web 7 "''v''" shop "fst ?run" "snd ?run"] g(3,4)
    by (auto simp: length_Suc_conv)
  with g(2,5,6) show ?thesis by (cases c) auto
qed

text \<open>
  The level decides the kind of write: below level 2 a Set sends no request and fails with the
  code Forbidden; at level 5 it never writes a scale; at any other level it writes scales only.
\<close>

lemma set_levels:
  assumes "kube_client k" and "Backend_Set k level t n expected s = (r, s')"
  shows "(level < 2 \<longrightarrow> calls s' = calls s \<and> (\<exists>e. r = Inl e \<and> ErrorCode (Some e) = Forbidden)) \<and>
    (level = 5 \<longrightarrow> scale_writes s' = scale_writes s) \<and>
    (level \<noteq> 5 \<longrightarrow> (\<exists>ws. writes s' = writes s @ ws \<and> list_all is_scale_write ws))"
proof (intro conjI impI)
  show "calls s' = calls s" "\<exists>e. r = Inl e \<and> ErrorCode (Some e) = Forbidden" if "level < 2"
    using that assms(2) by (auto simp: Backend_Set_def)
  show "scale_writes s' = scale_writes s" if "level = 5"
    using that kube_client.Backend_Set_written [OF assms]
    by (fastforce simp: scale_writes_writes list_all_iff filter_empty_conv dest: set_write_scale(1))
  show "\<exists>ws. writes s' = writes s @ ws \<and> list_all is_scale_write ws" if "level \<noteq> 5"
    using that kube_client.Backend_Set_written [OF assms] by (fastforce simp: list_all_iff dest: set_write_scale(2))
qed



end
