(* ===== verification/Read_Views.thy ===== *)
theory Read_Views
  imports Kube_Backend Ref_Cluster
begin

text \<open>
  What the reads of the backend show: which requests they send, that a listing is complete and
  ordered, that a desired count is never taken from an intent of another Deployment instance, and
  that readiness waits for exactly the informers that were started.
\<close>

section \<open>Complete listings\<close>

text \<open>
  \<open>serves k ns c s ds s'\<close>: asked for the pages from token \<open>c\<close> on, the server delivers the
  Deployments \<open>ds\<close> and then an empty token.
\<close>

inductive serves :: "'w kube \<Rightarrow> string \<Rightarrow> string \<Rightarrow> 'w session \<Rightarrow> apps_deployment list \<Rightarrow> 'w session \<Rightarrow> bool"
  for k ns where
  last: "\<lbrakk>request (ListDeployments ns (page c)) (Deployments_List k ns (page c)) s = (Inr l, s1); dl_Continue l = []\<rbrakk>
    \<Longrightarrow> serves k ns c s (dl_Items l) s1"
| more: "\<lbrakk>request (ListDeployments ns (page c)) (Deployments_List k ns (page c)) s = (Inr l, s1); dl_Continue l \<noteq> [];
      serves k ns (dl_Continue l) s1 ds s2\<rbrakk>
    \<Longrightarrow> serves k ns c s (dl_Items l @ ds) s2"

lemma serves_list_pages:
  "serves k ns c s ds s' \<Longrightarrow> list_pages k ns c out s = Some (Inr (out @ map deployment_view ds), s')"
  by (induction arbitrary: out rule: serves.induct) (simp_all add: list_pages.simps)

lemma list_pages_serves:
  assumes "list_pages k ns c out s = Some (Inr vs, s')"
  shows "\<exists>ds. serves k ns c s ds s' \<and> vs = out @ map deployment_view ds"
proof -
  have "case Inr vs of Inl (_ :: gerror) \<Rightarrow> True | Inr vs \<Rightarrow> \<exists>ds. serves k ns c s ds s' \<and> vs = out @ map deployment_view ds"
    using assms
  proof (induction rule: list_pages_induct)
    case (last c o1 s l s1)
    then show ?case by (auto intro: serves.last)
  next
    case (more c o1 s l s1 r s')
    then show ?case by (fastforce split: sum.splits intro: serves.more)
  qed simp
  then show ?thesis by simp
qed

lemma list_pages_iff:
  "list_pages k ns c [] s = Some (Inr vs, s') \<longleftrightarrow> (\<exists>ds. serves k ns c s ds s' \<and> vs = map deployment_view ds)"
  using serves_list_pages [of k ns c s _ s' "[]"] list_pages_serves [of k ns c "[]" s vs s'] by auto

section \<open>Properties\<close>

text \<open>
  C18. Below level 4 a listing returns exactly when the server delivers the pages up to an empty
  continue token, and then it holds the view of every Deployment delivered, no other, in the order
  of the keys.
\<close>

theorem list_complete:
  assumes "level < 4"
  shows "Backend_List k level ns s = Some (Inr vs, s') \<longleftrightarrow>
    (\<exists>ds. serves k ns [] s ds s' \<and> vs = sort_key (\<lambda>d. Key (d_Target d)) (map deployment_view ds))"
proof -
  have "Backend_List k level ns s = Some (Inr vs, s') \<longleftrightarrow>
      (\<exists>out. list_pages k ns [] [] s = Some (Inr out, s') \<and> vs = sort_views out)"
    using assms by (auto simp: Backend_List_def finish_list_def split: option.splits prod.splits sum.splits)
  then show ?thesis by (auto simp: list_pages_iff sort_views_def)
qed

theorem list_complete_witness:
  "(\<exists>ds. serves ref_client [] [] shop ds (snd (the (Backend_List ref_client 2 [] shop))) \<and> length ds = 3) \<and>
   length (calls (snd (the (Backend_List ref_client 2 [] shop)))) = 2"
proof -
  let ?run = "Backend_List ref_client 2 [] shop"
  have run: "?run \<noteq> None" "is_ok (fst (the ?run))" "length (calls (snd (the ?run))) = 2"
    "case fst (the ?run) of Inl _ \<Rightarrow> False | Inr vs \<Rightarrow> length vs = 3" by code_simp+
  then obtain vs where vs: "?run = Some (Inr vs, snd (the ?run))" "length vs = 3"
    by (cases "fst (the ?run)") (auto simp: prod_eq_iff)
  then show ?thesis using list_complete [of 2 ref_client "[]" shop vs "snd (the ?run)"] run(3) by auto
qed

text \<open>
  From level 4 on reads come from the informer caches: neither a Get nor a listing sends a
  request, a listing always returns, and before the caches are synchronised both fail with the
  code Unavailable.
\<close>

lemma cached_reads:
  assumes "4 \<le> level"
  shows "calls (snd (Backend_Get k level t s)) = calls s \<and>
    (\<exists>r s'. Backend_List k level ns s = Some (r, s') \<and> calls s' = calls s) \<and>
    (\<not> Synced k level s \<longrightarrow> ErrorCode (Some cache_unsynced) = Unavailable \<and>
       Backend_Get k level t s = (Inl cache_unsynced, s) \<and> Backend_List k level ns s = Some (Inl cache_unsynced, s))"
proof (intro conjI impI)
  have "extends (\<lambda>_. False) s (snd (Backend_Get k level t s))"
    by (rule extends_Backend_Get [OF prod.collapse [symmetric]]) (use assms in simp_all)
  then show "calls (snd (Backend_Get k level t s)) = calls s" by (rule extends_none)
  obtain r s' where run: "Backend_List k level ns s = Some (r, s')"
    using assms by (fastforce simp: Backend_List_def split: prod.splits sum.splits)
  then have "extends (\<lambda>_. False) s s'"
    by (rule extends_Backend_List) (use assms in simp_all)
  with run show "\<exists>r s'. Backend_List k level ns s = Some (r, s') \<and> calls s' = calls s"
    by (auto dest: extends_none)
qed (use assms in \<open>auto simp: Backend_Get_def Backend_List_def cache_unsynced_def\<close>)

text \<open>
  C19. A desired count in a view is never that of another instance: a Get that returns one found in
  the intent cache an intent for the very UID of the Deployment shown, with that count and version.
\<close>

theorem desired_of_instance:
  assumes "Backend_Get k level t s = (Inr v, s')" and "d_DesiredReplicas v = Some n"
  shows "level = 5 \<and> valid_replicas n \<and> (\<exists>u w w' i.
    IntentLister_Get k (Namespace (d_Target v)) (Name (d_Target v)) w = (Inr (Some u), w') \<and> parseIntent k u = Inr i \<and>
    i_DeploymentUID i = d_UID v \<and> i_Replicas i = n \<and> i_ResourceVersion i = d_IntentVersion v)"
proof -
  obtain d s1 where "level = 5" and dec: "decorateIntent k (deployment_view d) s1 = (Inr v, s')"
    using assms by (auto simp: Backend_Get_def deployment_view_def split: prod.splits sum.splits if_splits)
  moreover obtain u i where "cached (IntentLister_Get k (Namespace (d_Target v)) (Name (d_Target v))) s1 = (Inr (Some u), s')"
    and i: "parseIntent k u = Inr i" "i_DeploymentUID i = d_UID v" "i_Replicas i = n" "i_ResourceVersion i = d_IntentVersion v"
    using dec assms(2)
    by (auto simp: decorateIntent_def deployment_view_def split: prod.splits sum.splits option.splits if_splits)
  ultimately show ?thesis using parseIntent_replicas [OF i(1)] by (blast dest: cached_world)
qed

theorem desired_of_instance_witness:
  "(\<exists>v s'. Backend_Get ref_client 5 shop_web (shop_with (sample_intent ''uid-of-web'' 7)) = (Inr v, s') \<and>
      d_DesiredReplicas v = Some 7 \<and> valid_replicas 7) \<and>
   (\<exists>v s'. Backend_Get ref_client 5 shop_web (shop_with (sample_intent ''uid-of-old-web'' 7)) = (Inr v, s') \<and>
      d_DesiredReplicas v = None)"
proof -
  let ?own = "Backend_Get ref_client 5 shop_web (shop_with (sample_intent ''uid-of-web'' 7))"
    and ?old = "Backend_Get ref_client 5 shop_web (shop_with (sample_intent ''uid-of-old-web'' 7))"
  have "(case fst ?own of Inl _ \<Rightarrow> None | Inr v \<Rightarrow> d_DesiredReplicas v) = Some 7" by code_simp
  then obtain v where v: "fst ?own = Inr v" "d_DesiredReplicas v = Some 7" by (cases "fst ?own") auto
  then have own: "?own = (Inr v, snd ?own)" by (metis prod.collapse)
  have "case fst ?old of Inl _ \<Rightarrow> False | Inr v \<Rightarrow> d_DesiredReplicas v = None" by code_simp
  then obtain v' where v': "fst ?old = Inr v'" "d_DesiredReplicas v' = None" by (cases "fst ?old") auto
  then have old: "?old = (Inr v', snd ?old)" by (metis prod.collapse)
  show ?thesis using desired_of_instance [OF own v(2)] own v(2) old v'(2) by blast
qed

text \<open>Whether an informer's cache has been filled.\<close>

fun has_synced :: "'w kube \<Rightarrow> 'w \<Rightarrow> informer \<Rightarrow> bool" where
  "has_synced k w DeploymentInformer = Deployments_HasSynced k w"
| "has_synced k w HPAInformer = HPAs_HasSynced k w"
| "has_synced k w IntentInformer = Intents_HasSynced k w"

text \<open>
  At every level \<^verbatim>\<open>Synced\<close> waits for exactly the informers that \<^verbatim>\<open>New\<close> configures and
  \<^verbatim>\<open>Start\<close> starts: it neither ignores one nor waits for one that never runs.
\<close>

lemma synced_started:
  "Synced k level s \<longleftrightarrow> list_all (has_synced k (world s)) (Backend_Start level (Backend_New level))"
  by (auto simp: Synced_def Backend_Start_def Backend_New_def)

end
