(* ===== verification/Reconcile.thy ===== *)
theory Reconcile
  imports Model
begin

text \<open>
  \<^verbatim>\<open>internal/reconcile/reconcile.go\<close>: one reconciliation pass over a \<^verbatim>\<open>Store\<close>. The pass is a
  function that threads the store's state; every call may change that state, so the state also
  carries whatever other actors do between two calls.

  \<open>reads\<close>, \<open>reports\<close> and \<open>licensed\<close> describe what a pass may do: read, report a status that the
  values it read justify, or scale under a licence made of the values it read. The locale
  \<open>store_contract\<close> states what a store promises; the effects of a pass are proved in it.
\<close>

section \<open>The pass\<close>

record 's store =
  st_GetIntent :: "target \<Rightarrow> 's \<Rightarrow> (gerror + intent) \<times> 's"
  st_GetTarget :: "target \<Rightarrow> 's \<Rightarrow> (gerror + deployment) \<times> 's"
  st_HasHPA :: "target \<Rightarrow> 's \<Rightarrow> (gerror + bool) \<times> 's"
  st_UpdateScale :: "deployment \<Rightarrow> int32 \<Rightarrow> 's \<Rightarrow> gerror option \<times> 's"
  st_WriteStatus :: "intent \<Rightarrow> reconcile_status \<Rightarrow> 's \<Rightarrow> gerror option \<times> 's"

definition status_start :: "intent \<Rightarrow> reconcile_status" where
  "status_start i = \<lparr>s_ObservedGeneration = i_Generation i, s_ObservedReplicas = 0, s_ReadyReplicas = 0,
     s_Phase = [], s_Reason = []\<rparr>"

definition status_seen :: "intent \<Rightarrow> deployment \<Rightarrow> reconcile_status" where
  "status_seen i dep = (status_start i)\<lparr>s_ObservedReplicas := d_Replicas dep, s_ReadyReplicas := d_ReadyReplicas dep\<rparr>"

definition with_phase :: "reconcile_status \<Rightarrow> string \<Rightarrow> string \<Rightarrow> reconcile_status" where
  "with_phase st phase reason = st\<lparr>s_Phase := phase, s_Reason := reason\<rparr>"

lemmas status_defs = status_start_def status_seen_def with_phase_def

text \<open>The branch for a count that differs: read the intent again, scale, report.\<close>

definition correct_drift :: "'s store \<Rightarrow> target \<Rightarrow> intent \<Rightarrow> deployment \<Rightarrow> 's \<Rightarrow> gerror option \<times> 's" where
  "correct_drift S t intent dep s = (case st_GetIntent S t s of
       (Inl err, s1) \<Rightarrow> (Some err, s1)
     | (Inr fresh, s1) \<Rightarrow>
         if i_UID fresh \<noteq> i_UID intent \<or> i_Generation fresh \<noteq> i_Generation intent \<or> i_Deleting fresh
         then (Some (E Conflict ''intent changed during reconciliation'' None), s1)
         else (case st_UpdateScale S dep (i_Replicas intent) s1 of
             (Some err, s2) \<Rightarrow> (Some err, s2)
           | (None, s2) \<Rightarrow>
               st_WriteStatus S intent (with_phase (status_seen intent dep) ''Reconciling'' ''ScaleUpdated'') s2))"

text \<open>The pass once the Deployment was read.\<close>

definition reconcile_target :: "'s store \<Rightarrow> target \<Rightarrow> intent \<Rightarrow> deployment \<Rightarrow> 's \<Rightarrow> gerror option \<times> 's" where
  "reconcile_target S t intent dep s =
     (let st = status_seen intent dep;
          block = (\<lambda>reason. st_WriteStatus S intent (with_phase st ''Blocked'' reason)) in
      if i_DeploymentUID intent \<noteq> d_UID dep then block ''DeploymentUIDMismatch'' s
      else if d_Deleting dep then block ''DeploymentDeleting'' s
      else if d_Protected dep then block ''ProtectedDeployment'' s
      else (case st_HasHPA S t s of
          (Inl err, s1) \<Rightarrow> (Some err, s1)
        | (Inr hpa, s1) \<Rightarrow>
            if hpa then block ''HPAConflict'' s1
            else if d_Replicas dep \<noteq> i_Replicas intent then correct_drift S t intent dep s1
            else if d_ReadyReplicas dep = i_Replicas intent \<and>
               sint (d_ObservedGeneration dep) \<ge> sint (d_Generation dep)
            then st_WriteStatus S intent (with_phase st ''Ready'' ''DesiredStateObserved'') s1
            else st_WriteStatus S intent (with_phase st ''Reconciling'' ''WaitingForDeployment'') s1))"

definition Reconcile :: "'s store \<Rightarrow> target \<Rightarrow> 's \<Rightarrow> gerror option \<times> 's" where
  "Reconcile S t s = (case st_GetIntent S t s of
       (Inl err, s1) \<Rightarrow> if ErrorCode (Some err) = NotFound then (None, s1) else (Some err, s1)
     | (Inr intent, s1) \<Rightarrow>
         if i_Deleting intent then (None, s1)
         else if ValidateReplicas (i_Replicas intent) \<noteq> None
         then st_WriteStatus S intent (with_phase (status_start intent) ''Blocked'' ''InvalidReplicas'') s1
         else (case st_GetTarget S t s1 of
             (Inl err, s2) \<Rightarrow>
               if ErrorCode (Some err) \<noteq> NotFound then (Some err, s2)
               else st_WriteStatus S intent (with_phase (status_start intent) ''Blocked'' ''DeploymentNotFound'') s2
           | (Inr dep, s2) \<Rightarrow> reconcile_target S t intent dep s2))"

section \<open>What a pass may do\<close>

inductive reads :: "'s store \<Rightarrow> target \<Rightarrow> 's \<Rightarrow> 's \<Rightarrow> bool" for S t s where
  start: "reads S t s s"
| intent: "reads S t s s1 \<Longrightarrow> st_GetIntent S t s1 = (r, s2) \<Longrightarrow> reads S t s s2"
| target: "reads S t s s1 \<Longrightarrow> st_GetTarget S t s1 = (q, s2) \<Longrightarrow> reads S t s s2"
| hpa: "reads S t s s1 \<Longrightarrow> st_HasHPA S t s1 = (h, s2) \<Longrightarrow> reads S t s s2"

text \<open>The intent a pass acts on: read first, not being deleted, its count in range.\<close>

definition acting :: "'s store \<Rightarrow> target \<Rightarrow> 's \<Rightarrow> intent \<Rightarrow> 's \<Rightarrow> bool" where
  "acting S t s i s1 \<longleftrightarrow> st_GetIntent S t s = (Inr i, s1) \<and> \<not> i_Deleting i \<and> valid_replicas (i_Replicas i)"

text \<open>A target that may be written for an intent: the instance it names, live, unprotected, without HPA.\<close>

definition writable :: "'s store \<Rightarrow> target \<Rightarrow> intent \<Rightarrow> 's \<Rightarrow> deployment \<Rightarrow> 's \<Rightarrow> bool" where
  "writable S t i s1 dep s3 \<longleftrightarrow> (\<exists>s2. st_GetTarget S t s1 = (Inr dep, s2) \<and> i_DeploymentUID i = d_UID dep \<and>
     \<not> d_Deleting dep \<and> \<not> d_Protected dep \<and> st_HasHPA S t s2 = (Inr False, s3))"

definition licensed :: "'s store \<Rightarrow> target \<Rightarrow> 's \<Rightarrow> intent \<Rightarrow> deployment \<Rightarrow> 's \<Rightarrow> bool" where
  "licensed S t s i dep s4 \<longleftrightarrow> (\<exists>s1 s3 fresh. acting S t s i s1 \<and> writable S t i s1 dep s3 \<and>
     d_Replicas dep \<noteq> i_Replicas i \<and> st_GetIntent S t s3 = (Inr fresh, s4) \<and>
     i_UID fresh = i_UID i \<and> i_Generation fresh = i_Generation i \<and> \<not> i_Deleting fresh)"

text \<open>\<open>reports S t s i st s1\<close>: a pass from \<open>s\<close> writes the status \<open>st\<close> of intent \<open>i\<close> in state \<open>s1\<close>
  without having scaled.\<close>

inductive reports :: "'s store \<Rightarrow> target \<Rightarrow> 's \<Rightarrow> intent \<Rightarrow> reconcile_status \<Rightarrow> 's \<Rightarrow> bool" for S t s where
  invalid: "\<lbrakk>st_GetIntent S t s = (Inr i, s1); \<not> i_Deleting i; \<not> valid_replicas (i_Replicas i)\<rbrakk>
     \<Longrightarrow> reports S t s i (with_phase (status_start i) ''Blocked'' ''InvalidReplicas'') s1"
| missing: "\<lbrakk>acting S t s i s1; st_GetTarget S t s1 = (Inl e, s2); ErrorCode (Some e) = NotFound\<rbrakk>
     \<Longrightarrow> reports S t s i (with_phase (status_start i) ''Blocked'' ''DeploymentNotFound'') s2"
| mismatch: "\<lbrakk>acting S t s i s1; st_GetTarget S t s1 = (Inr dep, s2); i_DeploymentUID i \<noteq> d_UID dep\<rbrakk>
     \<Longrightarrow> reports S t s i (with_phase (status_seen i dep) ''Blocked'' ''DeploymentUIDMismatch'') s2"
| deleting: "\<lbrakk>acting S t s i s1; st_GetTarget S t s1 = (Inr dep, s2); i_DeploymentUID i = d_UID dep; d_Deleting dep\<rbrakk>
     \<Longrightarrow> reports S t s i (with_phase (status_seen i dep) ''Blocked'' ''DeploymentDeleting'') s2"
| protected: "\<lbrakk>acting S t s i s1; st_GetTarget S t s1 = (Inr dep, s2); i_DeploymentUID i = d_UID dep;
      \<not> d_Deleting dep; d_Protected dep\<rbrakk>
     \<Longrightarrow> reports S t s i (with_phase (status_seen i dep) ''Blocked'' ''ProtectedDeployment'') s2"
| autoscaled: "\<lbrakk>acting S t s i s1; st_GetTarget S t s1 = (Inr dep, s2); i_DeploymentUID i = d_UID dep;
      \<not> d_Deleting dep; \<not> d_Protected dep; st_HasHPA S t s2 = (Inr True, s3)\<rbrakk>
     \<Longrightarrow> reports S t s i (with_phase (status_seen i dep) ''Blocked'' ''HPAConflict'') s3"
| ready: "\<lbrakk>acting S t s i s1; writable S t i s1 dep s3; d_Replicas dep = i_Replicas i;
      d_ReadyReplicas dep = i_Replicas i; sint (d_Generation dep) \<le> sint (d_ObservedGeneration dep)\<rbrakk>
     \<Longrightarrow> reports S t s i (with_phase (status_seen i dep) ''Ready'' ''DesiredStateObserved'') s3"
| waiting: "\<lbrakk>acting S t s i s1; writable S t i s1 dep s3; d_Replicas dep = i_Replicas i;
      \<not> (d_ReadyReplicas dep = i_Replicas i \<and> sint (d_Generation dep) \<le> sint (d_ObservedGeneration dep))\<rbrakk>
     \<Longrightarrow> reports S t s i (with_phase (status_seen i dep) ''Reconciling'' ''WaitingForDeployment'') s3"

inductive_cases reports_elim: "reports S t s i st s1"

text \<open>The branches of the pass, from its end to its start.\<close>

lemma correct_drift_cases:
  assumes "correct_drift S t i dep s3 = (r, s')" and "acting S t s i s1" and "writable S t i s1 dep s3"
    and "d_Replicas dep \<noteq> i_Replicas i"
  obtains (silent) q where "st_GetIntent S t s3 = (q, s')"
  | (refused) s4 e where "licensed S t s i dep s4"
      and "st_UpdateScale S dep (i_Replicas i) s4 = (Some e, s')" and "r = Some e"
  | (scaled) s4 s5 where "licensed S t s i dep s4" and "st_UpdateScale S dep (i_Replicas i) s4 = (None, s5)"
      and "st_WriteStatus S i (with_phase (status_seen i dep) ''Reconciling'' ''ScaleUpdated'') s5 = (r, s')"
proof -
  obtain q s4 where q: "st_GetIntent S t s3 = (q, s4)" by fastforce
  show thesis
  proof (cases "\<exists>f. q = Inr f \<and> i_UID f = i_UID i \<and> i_Generation f = i_Generation i \<and> \<not> i_Deleting f")
    case False
    with assms(1) q have "s' = s4"
      by (auto simp: correct_drift_def split: sum.splits if_splits)
    with q silent show thesis by blast
  next
    case True
    with q assms(2-4) have licence: "licensed S t s i dep s4"
      by (auto simp: licensed_def)
    obtain u s5 where u: "st_UpdateScale S dep (i_Replicas i) s4 = (u, s5)" by fastforce
    with True q assms(1) licence refused scaled show thesis
      by (cases u) (auto simp: correct_drift_def)
  qed
qed

lemma reconcile_target_cases:
  assumes "reconcile_target S t i dep s2 = (r, s')" and act: "acting S t s i s1"
    and dep: "st_GetTarget S t s1 = (Inr dep, s2)"
  obtains (silent) q where "st_HasHPA S t s2 = (q, s')"
  | (report) st s3 where "reports S t s i st s3" and "st_WriteStatus S i st s3 = (r, s')"
  | (drift) s3 where "writable S t i s1 dep s3" and "st_HasHPA S t s2 = (Inr False, s3)"
      and "d_Replicas dep \<noteq> i_Replicas i" and "correct_drift S t i dep s3 = (r, s')"
proof -
  obtain h s3 where h: "st_HasHPA S t s2 = (h, s3)" by fastforce
  show thesis
  proof (cases "i_DeploymentUID i = d_UID dep \<and> \<not> d_Deleting dep \<and> \<not> d_Protected dep")
    case False
    with assms show thesis
      by (auto simp: reconcile_target_def Let_def split: if_splits
          intro: report reports.mismatch reports.deleting reports.protected)
  next
    case guards: True
    show thesis
    proof (cases h)
      case (Inl e)
      with assms(1) guards h silent show thesis by (auto simp: reconcile_target_def)
    next
      case (Inr b)
      show thesis
      proof (cases b)
        case True
        with assms(1) guards h Inr report [OF reports.autoscaled [OF act dep]] show thesis
          by (auto simp: reconcile_target_def Let_def)
      next
        case False
        with guards dep h Inr have w: "writable S t i s1 dep s3" by (auto simp: writable_def)
        with assms(1) guards h Inr False drift report [OF reports.ready [OF act w]]
          report [OF reports.waiting [OF act w]] show thesis
          by (auto simp: reconcile_target_def Let_def split: if_splits)
      qed
    qed
  qed
qed

lemma Reconcile_cases:
  assumes "Reconcile S t s = (r, s')"
  obtains (silent) "reads S t s s'"
  | (report) i st s1 where "reports S t s i st s1" and "st_WriteStatus S i st s1 = (r, s')"
  | (refused) i dep s4 e where "licensed S t s i dep s4"
      and "st_UpdateScale S dep (i_Replicas i) s4 = (Some e, s')" and "r = Some e"
  | (scaled) i dep s4 s5 where "licensed S t s i dep s4" and "st_UpdateScale S dep (i_Replicas i) s4 = (None, s5)"
      and "st_WriteStatus S i (with_phase (status_seen i dep) ''Reconciling'' ''ScaleUpdated'') s5 = (r, s')"
proof -
  obtain gi s1 where gi: "st_GetIntent S t s = (gi, s1)" by fastforce
  then have r1: "reads S t s s1" by (rule reads.intent [OF reads.start])
  show thesis
  proof (cases "\<exists>i. gi = Inr i \<and> \<not> i_Deleting i \<and> valid_replicas (i_Replicas i)")
    case False
    with assms gi r1 silent show thesis
      by (cases gi) (auto simp: Reconcile_def ValidateReplicas_None split: if_splits intro: report reports.invalid)
  next
    case True
    then obtain i where i: "gi = Inr i" and act: "acting S t s i s1"
      using gi by (auto simp: acting_def)
    then have ok: "\<not> i_Deleting i" "ValidateReplicas (i_Replicas i) = None"
      by (auto simp: acting_def ValidateReplicas_None)
    obtain g s2 where g: "st_GetTarget S t s1 = (g, s2)" by fastforce
    with r1 have r2: "reads S t s s2" by (blast intro: reads.target)
    show thesis
    proof (cases g)
      case (Inl e)
      with assms gi i ok g r2 silent report [OF reports.missing [OF act]] show thesis
        by (auto simp: Reconcile_def split: if_splits)
    next
      case (Inr dep)
      with assms gi i ok g have "reconcile_target S t i dep s2 = (r, s')" by (simp add: Reconcile_def)
      from this act g [unfolded Inr] show thesis
      proof (cases rule: reconcile_target_cases)
        case (drift s3)
        from drift(4) act drift(1,3) show thesis
          by (cases rule: correct_drift_cases)
             (use r2 drift(2) in \<open>auto intro: silent refused scaled reads.hpa reads.intent\<close>)
      qed (use r2 in \<open>auto intro: silent report reads.hpa\<close>)
    qed
  qed
qed

text \<open>A status a pass may write: reported, or the one that follows a scale write.\<close>

definition justified :: "'s store \<Rightarrow> target \<Rightarrow> 's \<Rightarrow> intent \<Rightarrow> reconcile_status \<Rightarrow> bool" where
  "justified S t s i st \<longleftrightarrow> (\<exists>s1. reports S t s i st s1) \<or>
     (\<exists>dep s4 s5. licensed S t s i dep s4 \<and> st_UpdateScale S dep (i_Replicas i) s4 = (None, s5) \<and>
        st = with_phase (status_seen i dep) ''Reconciling'' ''ScaleUpdated'')"

text \<open>A Ready status says what was read: the very count the intent asks for, fully ready, and
  observed by the Deployment's own controller, on a target that may be written.\<close>

lemma justified_ready:
  assumes "justified S t s i st" and "s_Phase st = ''Ready''"
  obtains s1 s3 dep where "acting S t s i s1" and "writable S t i s1 dep s3"
    and "d_Replicas dep = i_Replicas i" and "d_ReadyReplicas dep = i_Replicas i"
    and "sint (d_Generation dep) \<le> sint (d_ObservedGeneration dep)"
    and "s_ObservedGeneration st = i_Generation i" and "s_ReadyReplicas st = i_Replicas i"
  using assms by (auto simp: justified_def status_defs elim!: reports_elim)

lemma justified_observed: "justified S t s i st \<Longrightarrow> s_ObservedGeneration st = i_Generation i"
  by (auto simp: justified_def status_defs elim!: reports_elim)

lemma justified_intent: "justified S t s i st \<Longrightarrow> \<exists>s1. st_GetIntent S t s = (Inr i, s1) \<and> \<not> i_Deleting i"
  by (auto simp: justified_def licensed_def acting_def elim!: reports_elim)

section \<open>The decision table\<close>

text \<open>
  The verdict of a pass on a live, valid intent and its Deployment, as a table whose first true row
  counts. It is the specification of the pass when nothing changes while it reads.
\<close>

definition verdicts :: "intent \<Rightarrow> deployment \<Rightarrow> bool \<Rightarrow> (bool \<times> string \<times> string) list" where
  "verdicts i dep hpa =
     [(d_UID dep \<noteq> i_DeploymentUID i, ''Blocked'', ''DeploymentUIDMismatch''),
      (d_Deleting dep, ''Blocked'', ''DeploymentDeleting''),
      (d_Protected dep, ''Blocked'', ''ProtectedDeployment''),
      (hpa, ''Blocked'', ''HPAConflict''),
      (d_Replicas dep \<noteq> i_Replicas i, ''Reconciling'', ''ScaleUpdated''),
      (d_ReadyReplicas dep \<noteq> i_Replicas i, ''Reconciling'', ''WaitingForDeployment''),
      (sint (d_ObservedGeneration dep) < sint (d_Generation dep), ''Reconciling'', ''WaitingForDeployment''),
      (True, ''Ready'', ''DesiredStateObserved'')]"

definition verdict :: "intent \<Rightarrow> deployment \<Rightarrow> bool \<Rightarrow> string \<times> string" where
  "verdict i dep hpa = snd (hd (filter fst (verdicts i dep hpa)))"

text \<open>What follows from a verdict: scale first if it says so, then report.\<close>

definition enact :: "'s store \<Rightarrow> intent \<Rightarrow> deployment \<Rightarrow> string \<times> string \<Rightarrow> 's \<Rightarrow> gerror option \<times> 's" where
  "enact S i dep v s =
     (let report = st_WriteStatus S i (with_phase (status_seen i dep) (fst v) (snd v)) in
      if snd v = ''ScaleUpdated''
      then (case st_UpdateScale S dep (i_Replicas i) s of (Some e, s1) \<Rightarrow> (Some e, s1) | (None, s1) \<Rightarrow> report s1)
      else report s)"

text \<open>The state in which a pass enacts its verdict: a row that needs no further read is enacted at once.\<close>

lemma Reconcile_verdict:
  assumes "st_GetIntent S t s = (Inr i, s1)" and "\<not> i_Deleting i" and "valid_replicas (i_Replicas i)"
    and "st_GetTarget S t s1 = (Inr dep, s2)" and "st_HasHPA S t s2 = (Inr hpa, s3)"
    and "st_GetIntent S t s3 = (Inr i, s4)"
  shows "Reconcile S t s = enact S i dep (verdict i dep hpa)
    (if d_UID dep \<noteq> i_DeploymentUID i \<or> d_Deleting dep \<or> d_Protected dep then s2
     else if \<not> hpa \<and> d_Replicas dep \<noteq> i_Replicas i then s4 else s3)"
proof -
  have "Reconcile S t s = reconcile_target S t i dep s2"
    using assms by (simp add: Reconcile_def ValidateReplicas_None)
  then show ?thesis
    using assms by (simp add: reconcile_target_def correct_drift_def enact_def verdict_def verdicts_def not_le)
qed

section \<open>The contract of a store\<close>

text \<open>
  \<open>scales\<close> and \<open>statuses\<close> observe the scale writes and the status writes a state has seen. Reads
  add none; a successful scale update adds exactly one and a failed one at most one; status writes
  never scale; failures have one of the seven codes.
\<close>

locale store_contract =
  fixes S :: "'s store"
    and scales :: "'s \<Rightarrow> 'e list"
    and statuses :: "'s \<Rightarrow> 'e list"
    and scale_for :: "'e \<Rightarrow> deployment \<Rightarrow> int32 \<Rightarrow> bool"
    and status_for :: "'e \<Rightarrow> intent \<Rightarrow> reconcile_status \<Rightarrow> bool"
  assumes intent_quiet: "st_GetIntent S t s = (gi, s') \<Longrightarrow> scales s' = scales s \<and> statuses s' = statuses s"
    and target_quiet: "st_GetTarget S t s = (gt, s') \<Longrightarrow> scales s' = scales s \<and> statuses s' = statuses s"
    and hpa_quiet: "st_HasHPA S t s = (gh, s') \<Longrightarrow> scales s' = scales s \<and> statuses s' = statuses s"
    and scale_failed: "st_UpdateScale S dep n s = (Some e, s') \<Longrightarrow> statuses s' = statuses s \<and>
      (scales s' = scales s \<or> (\<exists>w. scales s' = scales s @ [w] \<and> scale_for w dep n))"
    and scale_done: "st_UpdateScale S dep n s = (None, s') \<Longrightarrow> statuses s' = statuses s \<and>
      (\<exists>w. scales s' = scales s @ [w] \<and> scale_for w dep n)"
    and status_no_scale: "st_WriteStatus S i st s = (r, s') \<Longrightarrow> scales s' = scales s"
    and status_written: "st_WriteStatus S i st s = (r, s') \<Longrightarrow>
      \<exists>ws. statuses s' = statuses s @ ws \<and> list_all (\<lambda>w. status_for w i st) ws"
    and intent_code: "st_GetIntent S t s = (Inl e, s') \<Longrightarrow> ErrorCode (Some e) \<in> set codes"
    and target_code: "st_GetTarget S t s = (Inl e, s') \<Longrightarrow> ErrorCode (Some e) \<in> set codes"
    and hpa_code: "st_HasHPA S t s = (Inl e, s') \<Longrightarrow> ErrorCode (Some e) \<in> set codes"
    and scale_code: "st_UpdateScale S dep n s = (Some e, s') \<Longrightarrow> ErrorCode (Some e) \<in> set codes"
    and status_code: "st_WriteStatus S i st s = (Some e, s') \<Longrightarrow> ErrorCode (Some e) \<in> set codes"
begin

lemma reads_quiet: "reads S t s s' \<Longrightarrow> scales s' = scales s \<and> statuses s' = statuses s"
  by (induction rule: reads.induct) (use intent_quiet target_quiet hpa_quiet in fastforce)+

lemma reports_quiet: "reports S t s i st s1 \<Longrightarrow> scales s1 = scales s \<and> statuses s1 = statuses s"
  by (induction rule: reports.induct)
     (auto simp: acting_def writable_def dest!: intent_quiet target_quiet hpa_quiet)

lemma licensed_quiet: "licensed S t s i dep s4 \<Longrightarrow> scales s4 = scales s \<and> statuses s4 = statuses s"
  by (auto simp: licensed_def acting_def writable_def dest!: intent_quiet target_quiet hpa_quiet)

text \<open>A pass scales at most once, and only under a licence.\<close>

lemma pass_scales:
  assumes "Reconcile S t s = (r, s')"
  shows "scales s' = scales s \<or>
    (\<exists>i dep s4 w. licensed S t s i dep s4 \<and> scales s' = scales s @ [w] \<and> scale_for w dep (i_Replicas i))"
  using assms
proof (cases rule: Reconcile_cases)
  case silent
  then show ?thesis by (simp add: reads_quiet)
next
  case (report i st s1)
  then show ?thesis using reports_quiet status_no_scale by metis
next
  case (refused i dep s4 e)
  then show ?thesis using licensed_quiet scale_failed by metis
next
  case (scaled i dep s4 s5)
  then show ?thesis using licensed_quiet scale_done status_no_scale by metis
qed

text \<open>All status writes of a pass are about one intent and carry one justified status.\<close>

lemma pass_statuses:
  assumes "Reconcile S t s = (r, s')"
  shows "\<exists>ws. statuses s' = statuses s @ ws \<and>
    (ws = [] \<or> (\<exists>i st. justified S t s i st \<and> list_all (\<lambda>w. status_for w i st) ws))"
  using assms
proof (cases rule: Reconcile_cases)
  case silent
  then show ?thesis by (simp add: reads_quiet)
next
  case (report i st s1)
  then show ?thesis using reports_quiet status_written justified_def by metis
next
  case (refused i dep s4 e)
  then show ?thesis using licensed_quiet scale_failed by (metis append_Nil2)
next
  case (scaled i dep s4 s5)
  then have "statuses s5 = statuses s" using licensed_quiet scale_done by metis
  with scaled show ?thesis using status_written justified_def by metis
qed

lemma pass_code: "Reconcile S t s = (Some e, s') \<Longrightarrow> ErrorCode (Some e) \<in> set codes"
  by (auto simp: Reconcile_def reconcile_target_def correct_drift_def Let_def codes_def
      dest: intent_code target_code hpa_code scale_code status_code
      split: prod.splits sum.splits if_splits option.splits)

end

end
