(* ===== verification/Kube_Store.thy ===== *)
theory Kube_Store
  imports Kube_Backend Reconcile
begin

text \<open>
  The Kubernetes backend as the \<^verbatim>\<open>reconcile.Store\<close> that the controller's engine uses
  (\<^verbatim>\<open>controller.New\<close> passes the backend as the store), and the proof that it keeps the contract
  \<open>store_contract\<close>: what a pass sends to the API server.
\<close>

definition kube_store :: "'w kube \<Rightarrow> 'w session store" where
  "kube_store k = \<lparr>st_GetIntent = GetIntent k, st_GetTarget = GetTarget k, st_HasHPA = HasHPA k,
     st_UpdateScale = UpdateScale k, st_WriteStatus = WriteStatus k\<rparr>"

lemma kube_store_sel [simp]:
  "st_GetIntent (kube_store k) = GetIntent k" "st_GetTarget (kube_store k) = GetTarget k"
  "st_HasHPA (kube_store k) = HasHPA k" "st_UpdateScale (kube_store k) = UpdateScale k"
  "st_WriteStatus (kube_store k) = WriteStatus k"
  by (simp_all add: kube_store_def)

fun kube_scale_for :: "api_call \<Rightarrow> deployment \<Rightarrow> int32 \<Rightarrow> bool" where
  "kube_scale_for (UpdateScaleOf ns name sc) dep n \<longleftrightarrow> ns = Namespace (d_Target dep) \<and> name = Name (d_Target dep) \<and>
     sc_UID sc = d_UID dep \<and> sc_ResourceVersion sc = d_ResourceVersion dep \<and> sc_SpecReplicas sc = n"
| "kube_scale_for _ dep n \<longleftrightarrow> False"

definition kube_status_for :: "'w kube \<Rightarrow> api_call \<Rightarrow> intent \<Rightarrow> reconcile_status \<Rightarrow> bool" where
  "kube_status_for k c i st \<longleftrightarrow> is_status_write c \<and> status_request k i st c"

lemma extends_no_log: "extends (\<lambda>c. \<not> is_write c) s s' \<Longrightarrow> scale_writes s' = scale_writes s \<and> status_writes s' = status_writes s"
proof -
  have "is_scale_write c \<or> is_status_write c \<Longrightarrow> is_write c" for c by (cases c) auto
  moreover assume "extends (\<lambda>c. \<not> is_write c) s s'"
  ultimately show ?thesis by (fastforce simp: extends_def log_defs list_all_iff filter_empty_conv)
qed

lemma UpdateScale_log:
  assumes "UpdateScale k dep n s = (r, s')"
  shows "status_writes s' = status_writes s"
    and "scale_writes s' = scale_writes s \<and> r \<noteq> None \<or>
      (\<exists>w. scale_writes s' = scale_writes s @ [w] \<and> kube_scale_for w dep n)"
  using assms
  by (auto simp: UpdateScale_def Let_def log_defs dest!: calls_request split: prod.splits sum.splits if_splits)

context kube_client
begin

lemma WriteStatus_log:
  assumes "WriteStatus k i st s = (r, s')"
  shows "scale_writes s' = scale_writes s"
    and "\<exists>ws. status_writes s' = status_writes s @ ws \<and> list_all (\<lambda>w. kube_status_for k w i st) ws"
proof -
  obtain cs where cs: "calls s' = calls s @ cs" "list_all (status_request k i st) cs"
    using extends_WriteStatus [OF assms] by (auto simp: extends_def)
  have "status_request k i st c \<Longrightarrow> \<not> is_scale_write c" for c by (cases c) auto
  with cs show "scale_writes s' = scale_writes s"
    by (auto simp: log_defs list_all_iff filter_empty_conv)
  from cs show "\<exists>ws. status_writes s' = status_writes s @ ws \<and> list_all (\<lambda>w. kube_status_for k w i st) ws"
    by (auto simp: log_defs list_all_iff kube_status_for_def)
qed

end

sublocale kube_client \<subseteq> ks: store_contract "kube_store k" scale_writes status_writes kube_scale_for "kube_status_for k"
proof unfold_locales
  show "scale_writes s' = scale_writes s \<and> status_writes s' = status_writes s"
    if "st_GetIntent (kube_store k) t s = (gi, s')" for t s gi s'
    using that by (intro extends_no_log) (auto intro: ext)
  show "scale_writes s' = scale_writes s \<and> status_writes s' = status_writes s"
    if "st_GetTarget (kube_store k) t s = (gt, s')" for t s gt s'
    using that by (intro extends_no_log) (auto intro: ext)
  show "scale_writes s' = scale_writes s \<and> status_writes s' = status_writes s"
    if "st_HasHPA (kube_store k) t s = (gh, s')" for t s gh s'
    using that by (intro extends_no_log) (auto intro: ext)
qed (auto simp: known_def [symmetric] dest: GetIntent_known GetTarget_known HasHPA_known UpdateScale_known
    WriteStatus_known WriteStatus_log UpdateScale_log)

context kube_client
begin

lemma store_ok: "store_contract (kube_store k) scale_writes status_writes kube_scale_for (kube_status_for k)"
  by (rule ks.store_contract_axioms)

text \<open>A pass over the backend scales at most once, under a licence, exactly as licensed.\<close>

lemma pass_scales_target:
  assumes "Reconcile (kube_store k) t s = (r, s')"
  shows "scale_writes s' = scale_writes s \<or>
    (\<exists>i dep s4 sc. licensed (kube_store k) t s i dep s4 \<and> d_Target dep = t \<and>
       scale_writes s' = scale_writes s @ [UpdateScaleOf (Namespace t) (Name t) sc] \<and>
       sc_UID sc = i_DeploymentUID i \<and> sc_ResourceVersion sc = d_ResourceVersion dep \<and>
       sc_SpecReplicas sc = i_Replicas i \<and> valid_replicas (sc_SpecReplicas sc))"
proof -
  have target: "d_Target dep = t" "i_DeploymentUID i = d_UID dep" "valid_replicas (i_Replicas i)"
    if "licensed (kube_store k) t s i dep s4" for i dep s4
    using that GetTarget_target by (auto simp: licensed_def writable_def acting_def)
  have "kube_scale_for w dep n \<Longrightarrow> \<exists>sc. w = UpdateScaleOf (Namespace (d_Target dep)) (Name (d_Target dep)) sc \<and>
      sc_UID sc = d_UID dep \<and> sc_ResourceVersion sc = d_ResourceVersion dep \<and> sc_SpecReplicas sc = n" for w dep n
    by (cases w) auto
  then show ?thesis using ks.pass_scales [OF assms] target by metis
qed

end

end
