(* ===== verification/Intent_Objects.thy ===== *)
theory Intent_Objects
  imports Kube_Store Ref_Cluster
begin

text \<open>
  Properties of the intent objects the backend stores and of the errors it reports: objects that
  \<^verbatim>\<open>setIntent\<close> builds parse back, what a parsed object holds, unchanged status is not written again,
  and no detail of a Kubernetes failure reaches a client.
\<close>

section \<open>Properties\<close>

text \<open>
  Intents round-trip: the object built for a Deployment with a UID and a count in range parses
  to an intent of that target, UID and count, and a parsed object holds exactly what the intent says,
  the count in range.
\<close>

lemma intent_roundtrip:
  assumes "unstructured_pkg k" and "valid_replicas n" and "d_UID dep \<noteq> []"
  shows "(\<exists>i. parseIntent k (new_intent k dep n) = Inr i \<and> i_Target i = d_Target dep \<and>
      i_DeploymentUID i = d_UID dep \<and> i_Replicas i = n) \<and>
    (parseIntent k u = Inr i \<longrightarrow> valid_replicas (i_Replicas i) \<and> i_DeploymentUID i \<noteq> [] \<and>
      at_path (u_Object u) [''spec'', ''deploymentUID''] = Some (VString (i_DeploymentUID i)) \<and>
      at_path (u_Object u) [''spec'', ''deploymentName''] = Some (VString (Name (i_Target i))) \<and>
      at_path (u_Object u) [''spec'', ''replicas''] = Some (VInt (int64_of (i_Replicas i))))"
  using unstructured_pkg.parse_new_intent [OF assms] unstructured_pkg.parseIntent_paths [OF assms(1)]
    parseIntent_replicas parseIntent_uid by blast

text \<open>
  Status is written only when it changed: if the stored object is live, of the intent's UID and
  generation, and already holds the status, \<^verbatim>\<open>WriteStatus\<close> succeeds after one read and no write.
\<close>

lemma status_unchanged_skipped:
  assumes "kube_client k"
    and "Intents_Get k (Namespace (i_Target i)) (Name (i_Target i)) (world s) = (Inr u, w)"
    and "GetUID k u = i_UID i" and "GetGeneration k u = i_Generation i" and "GetDeletionTimestamp k u = None"
    and "at_path (u_Object u) [''status''] = Some (VMap (status_map st))"
  shows "WriteStatus k i st s =
    (None, s\<lparr>world := w, calls := calls s @ [GetIntentObject (Namespace (i_Target i)) (Name (i_Target i))]\<rparr>)"
proof -
  have "fst (NestedMap k (u_Object u) [''status'']) = status_map st"
    using unstructured_pkg.nested_map [OF kube_client.axioms(3) [OF assms(1)] assms(6)] by simp
  then have "WriteStatus_attempt k i st s =
      (Inr (), s\<lparr>world := w, calls := calls s @ [GetIntentObject (Namespace (i_Target i)) (Name (i_Target i))]\<rparr>)"
    using assms(2-5) by (simp add: WriteStatus_attempt_def Let_def request_def maps_equal_def list_all_iff)
  from retries_done [where f = "WriteStatus_attempt k i st" and s = s, OF retry_pkg.retry_conflict_status [OF kube_client.axioms(1) [OF assms(1)]] this]
  show ?thesis by (simp add: WriteStatus_def)
qed

definition quiet_status :: reconcile_status where
  "quiet_status = \<lparr>s_ObservedGeneration = 1, s_ObservedReplicas = 2, s_ReadyReplicas = 2,
     s_Phase = ''Ready'', s_Reason = ''DesiredStateObserved''\<rparr>"

definition settled_intent :: unstructured where
  "settled_intent = \<lparr>u_Object = u_Object (sample_intent ''uid-of-web'' 2) @ [(''status'', VMap (status_map quiet_status))]\<rparr>"

text \<open>
  C36. No detail of a Kubernetes failure reaches a client: whatever error the client packages return,
  the public message of the mapped error is one of a fixed list, and its code one of the seven.
\<close>

theorem mapError_sanitises:
  assumes "errors_As err = None"
  shows "PublicError (Some (mapError k err)) \<in>
      {''Kubernetes resource was not found'', ''resource changed; read the current version and retry'',
       ''Kubernetes access denied'', ''Kubernetes rejected the resource'', ''Kubernetes operation failed'',
       ''operation timed out'', ''operation canceled''} \<and>
    ErrorCode (Some (mapError k err)) \<in> set codes"
proof
  show "ErrorCode (Some (mapError k err)) \<in> set codes"
    using known_mapError_foreign [OF assms] by (simp add: known_def)
  show "PublicError (Some (mapError k err)) \<in>
      {''Kubernetes resource was not found'', ''resource changed; read the current version and retry'',
       ''Kubernetes access denied'', ''Kubernetes rejected the resource'', ''Kubernetes operation failed'',
       ''operation timed out'', ''operation canceled''}"
  proof (cases "errors_Is err Canceled \<or> errors_Is err DeadlineExceeded")
    case True
    with assms show ?thesis by (auto simp: mapError_def PublicError_def)
  next
    case False
    with assms show ?thesis by (simp add: mapError_def)
  qed
qed

theorem mapError_sanitises_witness:
  "errors_As (OtherError ''dial tcp 10.0.0.1:6443: secret'') = None \<and>
   PublicError (Some (mapError ref_client (OtherError ''dial tcp 10.0.0.1:6443: secret''))) \<noteq> ''dial tcp 10.0.0.1:6443: secret''"
proof -
  have "errors_As (OtherError ''dial tcp 10.0.0.1:6443: secret'') = None" by simp
  from mapError_sanitises [OF this, of ref_client] show ?thesis by auto
qed

end
