(* ===== verification/Reconcile_Safety.thy ===== *)
theory Reconcile_Safety
  imports Kube_Store Ref_Cluster
begin

text \<open>
  The properties of a reconciliation pass of the controller over the Kubernetes backend: what it may
  scale, what it may report, and that it decides by the table when nothing changes meanwhile.
\<close>

section \<open>Properties\<close>

text \<open>
  C1. A pass sends at most one scale write. It sends one only if the intent read first is live and
  its count in range, the Deployment read next is the instance the intent names, live, unprotected,
  without HPA and of another count, and the intent read again has the same UID and generation and
  is not being deleted; the write names that Deployment, its UID, its version and the intent's count.
\<close>

theorem reconcile_scale_safe:
  assumes "kube_client k" and "Reconcile (kube_store k) t s = (r, s')"
  shows "scale_writes s' = scale_writes s \<or>
    (\<exists>i dep s4 sc. licensed (kube_store k) t s i dep s4 \<and> d_Target dep = t \<and>
       scale_writes s' = scale_writes s @ [UpdateScaleOf (Namespace t) (Name t) sc] \<and>
       sc_UID sc = i_DeploymentUID i \<and> sc_ResourceVersion sc = d_ResourceVersion dep \<and>
       sc_SpecReplicas sc = i_Replicas i \<and> valid_replicas (sc_SpecReplicas sc))"
  using assms(2) by (rule kube_client.pass_scales_target [OF assms(1)])

theorem reconcile_scale_safe_witness:
  "\<exists>sc. scale_writes (snd (Reconcile (kube_store ref_client) shop_web (shop_with (sample_intent ''uid-of-web'' 7)))) =
      [UpdateScaleOf ''shop'' ''web'' sc] \<and> valid_replicas (sc_SpecReplicas sc)"
proof -
  let ?s = "shop_with (sample_intent ''uid-of-web'' 7)"
  let ?run = "Reconcile (kube_store ref_client) shop_web ?s"
  have "scale_writes (snd ?run) \<noteq> []" "scale_writes ?s = []" "Namespace shop_web = ''shop''" "Name shop_web = ''web''"
    by code_simp+
  then show ?thesis
    using reconcile_scale_safe [OF ref.kube_client_axioms, of shop_web ?s "fst ?run" "snd ?run"] by auto
qed

text \<open>
  C8. Every status write of a pass belongs to the intent that was read: it goes to an object of its
  UID and generation and reports that generation as observed. It says Ready only if the Deployment
  that was read is the instance the intent names, live, unprotected and without HPA, with the
  intent's count both specified and ready and its generation observed by its own controller.
\<close>

theorem reconcile_status_truthful:
  assumes "kube_client k" and "Reconcile (kube_store k) t s = (r, s')" and "status_writes s' \<noteq> status_writes s"
  shows "\<exists>i st ws s1. GetIntent k t s = (Inr i, s1) \<and> \<not> i_Deleting i \<and> status_writes s' = status_writes s @ ws \<and>
    list_all (\<lambda>c. is_status_write c \<and> status_request k i st c) ws \<and> s_ObservedGeneration st = i_Generation i \<and>
    (s_Phase st \<noteq> ''Ready'' \<or> (\<exists>dep s2 s3. GetTarget k t s1 = (Inr dep, s2) \<and> HasHPA k t s2 = (Inr False, s3) \<and>
       d_UID dep = i_DeploymentUID i \<and> \<not> d_Deleting dep \<and> \<not> d_Protected dep \<and>
       d_Replicas dep = i_Replicas i \<and> d_ReadyReplicas dep = i_Replicas i \<and>
       sint (d_Generation dep) \<le> sint (d_ObservedGeneration dep)))"
proof -
  let ?S = "kube_store k"
  obtain i st ws where ws: "status_writes s' = status_writes s @ ws" "list_all (\<lambda>c. kube_status_for k c i st) ws"
    and j: "justified ?S t s i st"
    using store_contract.pass_statuses [OF kube_client.store_ok [OF assms(1)] assms(2)] assms(3) by auto
  obtain s1 where i: "GetIntent k t s = (Inr i, s1)" "\<not> i_Deleting i"
    using justified_intent [OF j] by auto
  have "s_Phase st \<noteq> ''Ready'' \<or> (\<exists>dep s2 s3. GetTarget k t s1 = (Inr dep, s2) \<and> HasHPA k t s2 = (Inr False, s3) \<and>
       d_UID dep = i_DeploymentUID i \<and> \<not> d_Deleting dep \<and> \<not> d_Protected dep \<and>
       d_Replicas dep = i_Replicas i \<and> d_ReadyReplicas dep = i_Replicas i \<and>
       sint (d_Generation dep) \<le> sint (d_ObservedGeneration dep))"
    using i(1) by (auto simp: acting_def writable_def elim!: justified_ready [OF j])
  with ws i justified_observed [OF j] show ?thesis unfolding kube_status_for_def by blast
qed

theorem reconcile_status_truthful_witness:
  "\<exists>i st ws s1. GetIntent ref_client shop_web (shop_with (sample_intent ''uid-of-web'' 2)) = (Inr i, s1) \<and>
     s_ObservedGeneration st = i_Generation i \<and>
     status_writes (snd (Reconcile (kube_store ref_client) shop_web (shop_with (sample_intent ''uid-of-web'' 2)))) = ws \<and>
     list_all (\<lambda>c. status_request ref_client i st c) ws \<and> ws \<noteq> []"
proof -
  let ?s = "shop_with (sample_intent ''uid-of-web'' 2)"
  let ?run = "Reconcile (kube_store ref_client) shop_web ?s"
  have run: "status_writes (snd ?run) \<noteq> status_writes ?s" "status_writes ?s = []" by code_simp+
  then show ?thesis
    using reconcile_status_truthful [OF ref.kube_client_axioms _ run(1), of shop_web "fst ?run"]
    by (auto simp: list_all_iff)
qed

text \<open>
  C9. When nothing changes while it reads, a pass over a live and valid intent acts by the decision
  table: it reports the first verdict that applies, after scaling if that verdict is a differing count.
\<close>

theorem reconcile_table:
  assumes "GetIntent k t s = (Inr i, s1)" and "GetTarget k t s1 = (Inr dep, s2)" and "HasHPA k t s2 = (Inr hpa, s3)"
    and "\<not> i_Deleting i" and "valid_replicas (i_Replicas i)" and "GetIntent k t s3 = (Inr i, s4)"
  shows "Reconcile (kube_store k) t s = enact (kube_store k) i dep (verdict i dep hpa)
    (if d_UID dep \<noteq> i_DeploymentUID i \<or> d_Deleting dep \<or> d_Protected dep then s2
     else if \<not> hpa \<and> d_Replicas dep \<noteq> i_Replicas i then s4 else s3)"
  using Reconcile_verdict [of "kube_store k" t s i s1 dep s2 hpa s3 s4] assms by simp

theorem reconcile_table_witness:
  "let s = shop_with (sample_intent ''uid-of-web'' 7); u = parseIntent ref_client (sample_intent ''uid-of-web'' 7);
       dep = deployment_view (sample_deployment ''shop'' ''web'') in
   \<exists>i s4. u = Inr i \<and> Reconcile (kube_store ref_client) shop_web s = enact (kube_store ref_client) i dep (''Reconciling'', ''ScaleUpdated'') s4"
proof -
  let ?s = "shop_with (sample_intent ''uid-of-web'' 7)" and ?dep = "deployment_view (sample_deployment ''shop'' ''web'')"
  let ?i = "projr (parseIntent ref_client (sample_intent ''uid-of-web'' 7))"
  define s1 where "s1 = snd (GetIntent ref_client shop_web ?s)"
  define s2 where "s2 = snd (GetTarget ref_client shop_web s1)"
  define s3 where "s3 = snd (HasHPA ref_client shop_web s2)"
  have runs: "GetIntent ref_client shop_web ?s = (Inr ?i, s1)" "GetTarget ref_client shop_web s1 = (Inr ?dep, s2)"
    "HasHPA ref_client shop_web s2 = (Inr False, s3)"
    "GetIntent ref_client shop_web s3 = (Inr ?i, snd (GetIntent ref_client shop_web s3))"
    unfolding s1_def s2_def s3_def by code_simp+
  have facts: "\<not> i_Deleting ?i" "valid_replicas (i_Replicas ?i)" "\<not> (d_UID ?dep \<noteq> i_DeploymentUID ?i \<or> d_Deleting ?dep \<or> d_Protected ?dep)"
    "d_Replicas ?dep \<noteq> i_Replicas ?i" "verdict ?i ?dep False = (''Reconciling'', ''ScaleUpdated'')"
    "parseIntent ref_client (sample_intent ''uid-of-web'' 7) = Inr ?i" by code_simp+
  show ?thesis
    using reconcile_table [OF runs(1-3) facts(1,2) runs(4)] facts(3-6) by (auto simp: Let_def)
qed

text \<open>
  C37. With the Kubernetes store no pass reports InvalidReplicas: an intent read from the cluster always
  has a count in range, since a stored object that does not parse, for one with a count out of range, is an
  error of the read. The pass then returns that error, of code FailedPrecondition, and writes nothing.
\<close>

theorem reconcile_unparsable:
  assumes "Intents_Get k (Namespace t) (Name t) (world s) = (Inr u, w)"
  shows "(\<forall>i. parseIntent k u = Inr i \<longrightarrow> ValidateReplicas (i_Replicas i) = None) \<and>
    (\<forall>e. parseIntent k u = Inl e \<longrightarrow> ErrorCode (Some e) = FailedPrecondition \<and>
       fst (Reconcile (kube_store k) t s) = Some e \<and> writes (snd (Reconcile (kube_store k) t s)) = writes s)"
proof (intro conjI allI impI)
  show "ValidateReplicas (i_Replicas i) = None" if "parseIntent k u = Inr i" for i
    using parseIntent_replicas [OF that] by (simp add: ValidateReplicas_None)
  fix e
  assume e: "parseIntent k u = Inl e"
  show code: "ErrorCode (Some e) = FailedPrecondition"
    using e by (auto simp: parseIntent_def split: prod.splits if_splits)
  have "Reconcile (kube_store k) t s = (Some e, s\<lparr>world := w, calls := calls s @ [GetIntentObject (Namespace t) (Name t)]\<rparr>)"
    using assms e code by (simp add: Reconcile_def GetIntent_def request_def code_defs)
  then show "fst (Reconcile (kube_store k) t s) = Some e" "writes (snd (Reconcile (kube_store k) t s)) = writes s"
    by (simp_all add: writes_def)
qed

theorem reconcile_unparsable_witness:
  "\<exists>e. fst (Reconcile (kube_store ref_client) shop_web (shop_with (sample_intent ''uid-of-web'' 5000))) = Some e \<and>
     ErrorCode (Some e) = FailedPrecondition"
proof -
  let ?u = "sample_intent ''uid-of-web'' 5000"
  have get: "Intents_Get ref_client (Namespace shop_web) (Name shop_web) (world (shop_with ?u)) = (Inr ?u, world (shop_with ?u))"
    and "\<not> is_ok (parseIntent ref_client ?u)" by code_simp+
  then obtain e where "parseIntent ref_client ?u = Inl e" by (cases "parseIntent ref_client ?u") auto
  with reconcile_unparsable [OF get] show ?thesis by blast
qed

end
