(* ===== verification/Convergence.thy ===== *)
theory Convergence
  imports Kube_Store Ref_Cluster
begin

text \<open>
  What the controller achieves when nobody interferes. \<open>quiet_store\<close> is a store in which reads return what
  is stored and accepted writes take effect; in it, one pass brings a Deployment to the count of its intent, and further
  passes leave it there. \<open>quiet_cluster\<close> states the same of the Kubernetes API: objects change only by the
  program's own requests, as the API documents them. The Kubernetes backend over a quiet cluster is a quiet store,
  and the write path of the service and the controller compose: an accepted Set converges.
\<close>

section \<open>Quiet stores\<close>

definition same_spec :: "intent \<Rightarrow> intent \<Rightarrow> bool" where
  "same_spec i i' \<longleftrightarrow> i'\<lparr>i_ResourceVersion := i_ResourceVersion i\<rparr> = i"

definition scaled_to :: "deployment \<Rightarrow> int32 \<Rightarrow> deployment \<Rightarrow> bool" where
  "scaled_to d n d' \<longleftrightarrow> d_Target d' = d_Target d \<and> d_UID d' = d_UID d \<and> d_Protected d' = d_Protected d \<and>
     d_Deleting d' = d_Deleting d \<and> d_Replicas d' = n"

lemma same_specD:
  assumes "same_spec i i'"
  shows "i_Target i' = i_Target i" "i_DeploymentUID i' = i_DeploymentUID i" "i_Replicas i' = i_Replicas i" "i_Deleting i' = i_Deleting i"
  using assms by (cases i; cases i'; simp add: same_spec_def)+

lemma same_spec_refl [simp]: "same_spec i i"
  by (simp add: same_spec_def)

lemma same_spec_trans [trans]: "same_spec i i1 \<Longrightarrow> same_spec i1 i' \<Longrightarrow> same_spec i i'"
  by (cases i; cases i1; cases i') (simp add: same_spec_def)

text \<open>Passes over one target, with their results.\<close>

fun passes :: "'s store \<Rightarrow> target \<Rightarrow> nat \<Rightarrow> 's \<Rightarrow> gerror option list \<times> 's" where
  "passes S t 0 s = ([], s)"
| "passes S t (Suc m) s = (case Reconcile S t s of (r, s1) \<Rightarrow> (case passes S t m s1 of (rs, s2) \<Rightarrow> (r # rs, s2)))"

locale quiet_store = store_contract S scales statuses scale_for status_for
  for S :: "'s store" and scales :: "'s \<Rightarrow> 'e list" and statuses :: "'s \<Rightarrow> 'e list"
    and scale_for :: "'e \<Rightarrow> deployment \<Rightarrow> int32 \<Rightarrow> bool" and status_for :: "'e \<Rightarrow> intent \<Rightarrow> reconcile_status \<Rightarrow> bool" +
  fixes intent_at :: "'s \<Rightarrow> target \<rightharpoonup> intent"
    and dep_at :: "'s \<Rightarrow> target \<rightharpoonup> deployment"
    and hpa_at :: "'s \<Rightarrow> target \<Rightarrow> bool"
  assumes quiet_intent: "intent_at s t = Some i \<Longrightarrow>
      \<exists>s'. st_GetIntent S t s = (Inr i, s') \<and> intent_at s' = intent_at s \<and> dep_at s' = dep_at s \<and> hpa_at s' = hpa_at s"
    and quiet_target: "dep_at s t = Some d \<Longrightarrow>
      \<exists>s'. st_GetTarget S t s = (Inr d, s') \<and> intent_at s' = intent_at s \<and> dep_at s' = dep_at s \<and> hpa_at s' = hpa_at s"
    and quiet_hpa: "\<exists>s'. st_HasHPA S t s = (Inr (hpa_at s t), s') \<and> intent_at s' = intent_at s \<and> dep_at s' = dep_at s \<and> hpa_at s' = hpa_at s"
    and quiet_scale: "dep_at s t = Some d \<Longrightarrow> \<exists>s' d'. st_UpdateScale S d n s = (None, s') \<and> scaled_to d n d' \<and>
      dep_at s' = (dep_at s)(t \<mapsto> d') \<and> intent_at s' = intent_at s \<and> hpa_at s' = hpa_at s"
    and quiet_status: "intent_at s t = Some i \<Longrightarrow> \<not> i_Deleting i \<Longrightarrow> \<exists>s' i'. st_WriteStatus S i st s = (None, s') \<and> same_spec i i' \<and>
      intent_at s' = (intent_at s)(t \<mapsto> i') \<and> dep_at s' = dep_at s \<and> hpa_at s' = hpa_at s"
    and quiet_no_intent: "intent_at s t = None \<Longrightarrow>
      \<exists>e s'. st_GetIntent S t s = (Inl e, s') \<and> intent_at s' = intent_at s \<and> dep_at s' = dep_at s \<and> hpa_at s' = hpa_at s"
    and quiet_no_target: "dep_at s t = None \<Longrightarrow>
      \<exists>e s'. st_GetTarget S t s = (Inl e, s') \<and> intent_at s' = intent_at s \<and> dep_at s' = dep_at s \<and> hpa_at s' = hpa_at s"
    and intent_valid: "intent_at s t = Some i \<Longrightarrow> valid_replicas (i_Replicas i)"
begin

text \<open>A live intent for a Deployment that may be written.\<close>

definition eligible :: "'s \<Rightarrow> target \<Rightarrow> intent \<Rightarrow> deployment \<Rightarrow> bool" where
  "eligible s t i d \<longleftrightarrow> intent_at s t = Some i \<and> \<not> i_Deleting i \<and> valid_replicas (i_Replicas i) \<and>
     dep_at s t = Some d \<and> i_DeploymentUID i = d_UID d \<and> \<not> d_Deleting d \<and> \<not> d_Protected d \<and> \<not> hpa_at s t"

lemma pass_converges:
  assumes "eligible s t i d"
  shows "\<exists>s' i' d'. Reconcile S t s = (None, s') \<and> eligible s' t i' d' \<and> same_spec i i' \<and> d_UID d' = d_UID d \<and>
    d_Replicas d' = i_Replicas i \<and> (d_Replicas d = i_Replicas i \<longrightarrow> d' = d) \<and>
    intent_at s' = (intent_at s)(t \<mapsto> i') \<and> dep_at s' = (dep_at s)(t \<mapsto> d') \<and> hpa_at s' = hpa_at s"
proof -
  note e = assms [unfolded eligible_def]
  obtain s1 where s1: "st_GetIntent S t s = (Inr i, s1)" "intent_at s1 = intent_at s" "dep_at s1 = dep_at s" "hpa_at s1 = hpa_at s"
    using quiet_intent [of s t i] e by auto
  obtain s2 where s2: "st_GetTarget S t s1 = (Inr d, s2)" "intent_at s2 = intent_at s" "dep_at s2 = dep_at s" "hpa_at s2 = hpa_at s"
    using quiet_target [of s1 t d] e s1 by auto
  obtain s3 where s3: "st_HasHPA S t s2 = (Inr False, s3)" "intent_at s3 = intent_at s" "dep_at s3 = dep_at s" "hpa_at s3 = hpa_at s"
    using quiet_hpa [of t s2] e s2 by auto
  obtain s4 where s4: "st_GetIntent S t s3 = (Inr i, s4)" "intent_at s4 = intent_at s" "dep_at s4 = dep_at s" "hpa_at s4 = hpa_at s"
    using quiet_intent [of s3 t i] e s3 by auto
  have run: "Reconcile S t s = enact S i d (verdict i d False) (if d_Replicas d \<noteq> i_Replicas i then s4 else s3)"
    using Reconcile_verdict [OF s1(1) _ _ s2(1) s3(1) s4(1)] e by simp
  show ?thesis
  proof (cases "d_Replicas d = i_Replicas i")
    case True
    then have "snd (verdict i d False) \<noteq> ''ScaleUpdated''" using e by (simp add: verdict_def verdicts_def)
    then obtain st where "Reconcile S t s = st_WriteStatus S i st s3" using run True by (auto simp: enact_def Let_def)
    moreover obtain s' i' where "st_WriteStatus S i st s3 = (None, s')" "same_spec i i'" "intent_at s' = (intent_at s)(t \<mapsto> i')"
      "dep_at s' = dep_at s" "hpa_at s' = hpa_at s"
      using quiet_status [of s3 t i st] e s3 by auto
    ultimately show ?thesis using e True
      by (intro exI [of _ s'] exI [of _ i'] exI [of _ d]) (auto simp: eligible_def fun_upd_idem dest: same_specD)
  next
    case False
    then have v: "snd (verdict i d False) = ''ScaleUpdated''" using e by (simp add: verdict_def verdicts_def)
    obtain s5 d' where s5: "st_UpdateScale S d (i_Replicas i) s4 = (None, s5)" "scaled_to d (i_Replicas i) d'"
      "dep_at s5 = (dep_at s)(t \<mapsto> d')" "intent_at s5 = intent_at s" "hpa_at s5 = hpa_at s"
      using quiet_scale [of s4 t d "i_Replicas i"] e s4 by auto
    obtain st where st: "Reconcile S t s = st_WriteStatus S i st s5" using run False v s5(1) by (auto simp: enact_def Let_def)
    obtain s' i' where "st_WriteStatus S i st s5 = (None, s')" "same_spec i i'" "intent_at s' = (intent_at s)(t \<mapsto> i')"
      "dep_at s' = (dep_at s)(t \<mapsto> d')" "hpa_at s' = hpa_at s"
      using quiet_status [of s5 t i st] e s5 by auto
    with st e s5(2) False show ?thesis
      by (intro exI [of _ s'] exI [of _ i'] exI [of _ d']) (auto simp: eligible_def scaled_to_def dest: same_specD)
  qed
qed

text \<open>A pass over a Deployment that already has the count scales nothing.\<close>

lemma pass_settled:
  assumes "eligible s t i d" and "d_Replicas d = i_Replicas i" and "Reconcile S t s = (r, s')"
  shows "scales s' = scales s"
proof -
  have "\<not> licensed S t s j dep s4" for j dep s4
  proof
    assume lic: "licensed S t s j dep s4"
    then obtain s1 s3 where "st_GetIntent S t s = (Inr j, s1)" "st_GetTarget S t s1 = (Inr dep, s3)" "d_Replicas dep \<noteq> i_Replicas j"
      by (auto simp: licensed_def acting_def writable_def)
    moreover obtain s1' where s1': "st_GetIntent S t s = (Inr i, s1')" "dep_at s1' = dep_at s" using quiet_intent [of s t i] assms(1) by (auto simp: eligible_def)
    moreover obtain s2' where "st_GetTarget S t s1' = (Inr d, s2')" using quiet_target [of s1' t d] s1' assms(1) by (auto simp: eligible_def)
    ultimately show False using assms(2) by simp
  qed
  then show ?thesis using pass_scales [OF assms(3)] by blast
qed

lemma pass_scales_once:
  assumes "Reconcile S t s = (r, s')"
  shows "length (scales s') \<le> Suc (length (scales s))"
  using pass_scales [OF assms] by auto

lemma passes_settled:
  assumes "eligible s t i d" and "d_Replicas d = i_Replicas i" and "passes S t m s = (rs, s')"
  shows "\<exists>i'. eligible s' t i' d \<and> same_spec i i' \<and> list_all (\<lambda>r. r = None) rs \<and> scales s' = scales s"
  using assms
proof (induction m arbitrary: s i rs)
  case 0
  then show ?case by (auto simp: same_spec_def)
next
  case (Suc m)
  obtain s1 i1 where one: "Reconcile S t s = (None, s1)" "eligible s1 t i1 d" "same_spec i i1"
    using pass_converges [OF Suc.prems(1)] Suc.prems(2) by blast
  moreover obtain rs1 where more: "passes S t m s1 = (rs1, s')" "rs = None # rs1"
    using Suc.prems(3) one(1) by (auto split: prod.splits)
  moreover have "i_Replicas i1 = i_Replicas i" using one(3) by (rule same_specD)
  ultimately obtain i' where "eligible s' t i' d" "same_spec i1 i'" "list_all (\<lambda>r. r = None) rs1" "scales s' = scales s1"
    using Suc.IH [OF one(2) _ more(1)] Suc.prems(2) by auto
  moreover have "scales s1 = scales s" using pass_settled [OF Suc.prems(1,2) one(1)] .
  moreover have "same_spec i i'" using one(3) \<open>same_spec i1 i'\<close> by (rule same_spec_trans)
  ultimately show ?case using more(2) by auto
qed

lemma passes_converge:
  assumes "eligible s t i d" and "passes S t (Suc m) s = (rs, s')"
  shows "\<exists>i' d'. eligible s' t i' d' \<and> same_spec i i' \<and> d_UID d' = d_UID d \<and> d_Replicas d' = i_Replicas i \<and>
    list_all (\<lambda>r. r = None) rs \<and> length (scales s') \<le> Suc (length (scales s))"
proof -
  obtain s1 i1 d1 where one: "Reconcile S t s = (None, s1)" "eligible s1 t i1 d1" "same_spec i i1" "d_UID d1 = d_UID d" "d_Replicas d1 = i_Replicas i"
    using pass_converges [OF assms(1)] by blast
  moreover obtain rs1 where more: "passes S t m s1 = (rs1, s')" "rs = None # rs1"
    using assms(2) one(1) by (auto split: prod.splits)
  moreover have "i_Replicas i1 = i_Replicas i" using one(3) by (rule same_specD)
  ultimately obtain i' where "eligible s' t i' d1" "same_spec i1 i'" "list_all (\<lambda>r. r = None) rs1" "scales s' = scales s1"
    using passes_settled [OF one(2) _ more(1)] by auto
  moreover have "same_spec i i'" using one(3) \<open>same_spec i1 i'\<close> by (rule same_spec_trans)
  ultimately show ?thesis using one more(2) pass_scales_once [OF one(1)] by auto
qed

end

section \<open>Quiet clusters\<close>

definition same_instance :: "apps_deployment \<Rightarrow> apps_deployment \<Rightarrow> bool" where
  "same_instance d d' \<longleftrightarrow> ad_Namespace d' = ad_Namespace d \<and> ad_Name d' = ad_Name d \<and> ad_UID d' = ad_UID d \<and>
     ad_DeletionTimestamp d' = ad_DeletionTimestamp d \<and> ad_Annotations d' = ad_Annotations d"

text \<open>The fields of an intent object that belong to its writers.\<close>

definition writer_fields :: "string list list" where
  "writer_fields = [[''spec'', ''deploymentName''], [''spec'', ''deploymentUID''], [''spec'', ''replicas''], [''metadata'', ''name''],
     [''metadata'', ''namespace''], [''metadata'', ''deletionTimestamp'']]"

definition keeps :: "string list list \<Rightarrow> unstructured \<Rightarrow> unstructured \<Rightarrow> bool" where
  "keeps ps u u' \<longleftrightarrow> list_all (\<lambda>p. at_path (u_Object u') p = at_path (u_Object u) p) ps"

text \<open>
  \<open>deps\<close>, \<open>intents\<close> and \<open>hpas\<close> are the objects a world holds. Reads return them and change nothing; a write that names the current version is
  accepted and changes the object it names: a scale write the count (and what the server and its controllers derive from it), a
  create or update of an intent stores the writer's fields, and a status write leaves all but the status and the version.
\<close>

locale quiet_cluster = kube_client k for k :: "'w kube" +
  fixes deps :: "'w \<Rightarrow> string \<Rightarrow> string \<rightharpoonup> apps_deployment"
    and intents :: "'w \<Rightarrow> string \<Rightarrow> string \<rightharpoonup> unstructured"
    and hpas :: "'w \<Rightarrow> string \<Rightarrow> hpa list"
  assumes get_stored: "deps w ns n = Some d \<Longrightarrow> Deployments_Get k ns n w = (Inr d, w)"
    and get_missing: "deps w ns n = None \<Longrightarrow> \<exists>e. Deployments_Get k ns n w = (Inl e, w)"
    and scale_stored: "deps w ns n = Some d \<Longrightarrow>
      \<exists>sc. Deployments_GetScale k ns n w = (Inr sc, w) \<and> sc_UID sc = ad_UID d \<and> sc_ResourceVersion sc = ad_ResourceVersion d"
    and scale_accepted: "deps w ns n = Some d \<Longrightarrow> sc_UID sc = ad_UID d \<Longrightarrow> sc_ResourceVersion sc = ad_ResourceVersion d \<Longrightarrow>
      \<exists>sc' w' d'. Deployments_UpdateScale k ns n sc w = (Inr sc', w') \<and> same_instance d d' \<and> ad_SpecReplicas d' = Some (sc_SpecReplicas sc) \<and>
        deps w' = (deps w)(ns := (deps w ns)(n \<mapsto> d')) \<and> intents w' = intents w \<and> hpas w' = hpas w"
    and hpas_stored: "HPAs_List k ns w = (Inr (hpas w ns), w)"
    and intent_named: "intents w ns n = Some u \<Longrightarrow> GetNamespace k u = ns \<and> GetName k u = n"
    and intent_stored: "intents w ns n = Some u \<Longrightarrow> Intents_Get k ns n w = (Inr u, w)"
    and intent_missing: "intents w ns n = None \<Longrightarrow> \<exists>e. Intents_Get k ns n w = (Inl e, w)"
    and intent_created: "intents w ns n = None \<Longrightarrow> GetNamespace k u = ns \<Longrightarrow> GetName k u = n \<Longrightarrow>
      \<exists>u' w'. Intents_Create k ns u w = (Inr u', w') \<and> keeps writer_fields u u' \<and>
        intents w' = (intents w)(ns := (intents w ns)(n \<mapsto> u')) \<and> deps w' = deps w \<and> hpas w' = hpas w"
    and intent_updated: "intents w ns n = Some old \<Longrightarrow> GetNamespace k u = ns \<Longrightarrow> GetName k u = n \<Longrightarrow>
      GetResourceVersion k u = GetResourceVersion k old \<Longrightarrow>
      \<exists>u' w'. Intents_Update k ns u w = (Inr u', w') \<and> keeps writer_fields u u' \<and>
        intents w' = (intents w)(ns := (intents w ns)(n \<mapsto> u')) \<and> deps w' = deps w \<and> hpas w' = hpas w"
    and status_updated: "intents w ns n = Some old \<Longrightarrow> GetName k u = n \<Longrightarrow> GetResourceVersion k u = GetResourceVersion k old \<Longrightarrow>
      \<exists>u' w'. Intents_UpdateStatus k ns u w = (Inr u', w') \<and> keeps writer_fields old u' \<and>
        GetUID k u' = GetUID k old \<and> GetGeneration k u' = GetGeneration k old \<and>
        intents w' = (intents w)(ns := (intents w ns)(n \<mapsto> u')) \<and> deps w' = deps w \<and> hpas w' = hpas w"
    and deletion_field: "at_path (u_Object u) [''metadata'', ''deletionTimestamp''] = at_path (u_Object v) [''metadata'', ''deletionTimestamp''] \<Longrightarrow>
      GetDeletionTimestamp k u = GetDeletionTimestamp k v"
    and deletion_absent: "at_path (u_Object u) [''metadata'', ''deletionTimestamp''] = None \<Longrightarrow> GetDeletionTimestamp k u = None"
begin

definition intent_at :: "'w session \<Rightarrow> target \<rightharpoonup> intent" where
  "intent_at s t = (case intents (world s) (Namespace t) (Name t) of
       None \<Rightarrow> None | Some u \<Rightarrow> (case parseIntent k u of Inl _ \<Rightarrow> None | Inr i \<Rightarrow> Some i))"

definition dep_at :: "'w session \<Rightarrow> target \<rightharpoonup> deployment" where
  "dep_at s t = map_option deployment_view (deps (world s) (Namespace t) (Name t))"

definition hpa_at :: "'w session \<Rightarrow> target \<Rightarrow> bool" where
  "hpa_at s t = hpa_targets (Name t) (hpas (world s) (Namespace t))"

lemmas at_defs = intent_at_def dep_at_def hpa_at_def

lemma same_world: "world s' = world s \<Longrightarrow> intent_at s' = intent_at s \<and> dep_at s' = dep_at s \<and> hpa_at s' = hpa_at s"
  by (simp add: at_defs fun_eq_iff)

lemma intent_at_iff: "intent_at s t = Some i \<longleftrightarrow> (\<exists>u. intents (world s) (Namespace t) (Name t) = Some u \<and> parseIntent k u = Inr i)"
  by (auto simp: intent_at_def split: option.splits sum.splits)

lemma parsed_target:
  assumes "intents w (Namespace t) (Name t) = Some u" and "parseIntent k u = Inr i"
  shows "i_Target i = t" and "i_UID i = GetUID k u" and "i_Generation i = GetGeneration k u" and "i_Deleting i \<longleftrightarrow> GetDeletionTimestamp k u \<noteq> None"
  using assms intent_named [OF assms(1)] by (auto simp: parseIntent_def mk_target_def split: prod.splits if_splits)

lemma dep_named: "deps w ns n = Some d \<Longrightarrow> ad_Namespace d = ns \<and> ad_Name d = n"
  using get_stored get_deployment_named by blast

text \<open>An object with the writer's fields of another one parses alike.\<close>

lemma parse_writer:
  assumes "keeps writer_fields u u'" and "at_path (u_Object u) [''spec'', ''deploymentName''] = Some (VString n)" and "GetName k u = n"
    and "at_path (u_Object u) [''spec'', ''deploymentUID''] = Some (VString uid)" and "uid \<noteq> []"
    and "at_path (u_Object u) [''spec'', ''replicas''] = Some (VInt (int64_of c))" and "valid_replicas c"
  shows "parseIntent k u' = Inr \<lparr>i_Target = mk_target (GetNamespace k u) n, i_UID = GetUID k u', i_DeploymentUID = uid, i_Replicas = c,
    i_Generation = GetGeneration k u', i_ResourceVersion = GetResourceVersion k u', i_Deleting = (GetDeletionTimestamp k u \<noteq> None)\<rparr>"
proof -
  have "GetName k u' = n" "GetNamespace k u' = GetNamespace k u" "GetDeletionTimestamp k u' = GetDeletionTimestamp k u"
    using assms(1,3) deletion_field [of u' u] by (simp_all add: keeps_def writer_fields_def get_name get_namespace string_at_def)
  then show ?thesis
    using assms by (simp add: parseIntent_def keeps_def writer_fields_def nested_string nested_int valid_replicas_def)
qed

lemma parse_kept:
  assumes "keeps writer_fields u u'" and "GetUID k u' = GetUID k u" and "GetGeneration k u' = GetGeneration k u" and "parseIntent k u = Inr i"
  shows "\<exists>i'. parseIntent k u' = Inr i' \<and> same_spec i i'"
proof -
  have name: "GetName k u = Name (i_Target i)" "i_Target i = mk_target (GetNamespace k u) (Name (i_Target i))"
    and i: "i_UID i = GetUID k u" "i_Generation i = GetGeneration k u" "i_Deleting i \<longleftrightarrow> GetDeletionTimestamp k u \<noteq> None"
    using assms(4) by (auto simp: parseIntent_def mk_target_def split: prod.splits if_splits)
  note paths = parseIntent_paths [OF assms(4)]
  from parse_writer [OF assms(1) paths(2) name(1) paths(1) parseIntent_uid [OF assms(4)] paths(3) parseIntent_replicas [OF assms(4)]]
  show ?thesis using name(2) i assms(2,3) by (intro exI conjI) (assumption, simp add: same_spec_def)
qed

lemma quiet_request:
  assumes "f (world s) = (r, world s)"
  shows "\<exists>s'. request c f s = (r, s') \<and> intent_at s' = intent_at s \<and> dep_at s' = dep_at s \<and> hpa_at s' = hpa_at s"
  using assms same_world [of "snd (request c f s)" s] by (simp add: request_def)

lemma map_at_update:
  "deps w' = (deps w)(ns := (deps w ns)(n \<mapsto> d)) \<Longrightarrow> world s = w \<Longrightarrow> world s' = w' \<Longrightarrow> dep_at s' = (dep_at s)(mk_target ns n \<mapsto> deployment_view d)"
  by (auto simp: dep_at_def fun_eq_iff mk_target_def)

lemma intent_at_update:
  "intents w' = (intents w)(ns := (intents w ns)(n \<mapsto> u)) \<Longrightarrow> parseIntent k u = Inr i \<Longrightarrow> world s = w \<Longrightarrow> world s' = w' \<Longrightarrow>
    intent_at s' = (intent_at s)(mk_target ns n \<mapsto> i)"
  by (auto simp: intent_at_def fun_eq_iff mk_target_def)

lemma scale_effect:
  assumes "dep_at s t = Some d"
  shows "\<exists>s' d'. UpdateScale k d n s = (None, s') \<and> scaled_to d n d' \<and>
    dep_at s' = (dep_at s)(t \<mapsto> d') \<and> intent_at s' = intent_at s \<and> hpa_at s' = hpa_at s"
proof -
  obtain ad where ad: "deps (world s) (Namespace t) (Name t) = Some ad" "d = deployment_view ad" using assms by (auto simp: dep_at_def)
  have t: "d_Target d = t" using dep_named [OF ad(1)] by (simp add: ad(2) deployment_view_def)
  have ids: "d_UID d = ad_UID ad" "d_ResourceVersion d = ad_ResourceVersion ad" by (simp_all add: ad(2) deployment_view_def)
  obtain sc where sc: "Deployments_GetScale k (Namespace t) (Name t) (world s) = (Inr sc, world s)" "sc_UID sc = ad_UID ad"
    "sc_ResourceVersion sc = ad_ResourceVersion ad" using scale_stored [OF ad(1)] by blast
  obtain sc' w' ad' where up: "Deployments_UpdateScale k (Namespace t) (Name t) (sc\<lparr>sc_SpecReplicas := n\<rparr>) (world s) = (Inr sc', w')"
    "same_instance ad ad'" "ad_SpecReplicas ad' = Some n"
    "deps w' = (deps (world s))(Namespace t := (deps (world s) (Namespace t))(Name t \<mapsto> ad'))" "intents w' = intents (world s)" "hpas w' = hpas (world s)"
    using scale_accepted [OF ad(1), of "sc\<lparr>sc_SpecReplicas := n\<rparr>"] sc by auto
  obtain s1 where s1: "UpdateScale k d n s = (None, s1)" "world s1 = w'"
    using sc up(1) ids by (simp add: UpdateScale_def request_def Let_def t)
  have "dep_at s1 = (dep_at s)(t \<mapsto> deployment_view ad')" using map_at_update [OF up(4) refl s1(2)] by simp
  moreover have "scaled_to d n (deployment_view ad')" using up(2,3) by (simp add: scaled_to_def ad(2) deployment_view_def same_instance_def)
  moreover have "intent_at s1 = intent_at s" "hpa_at s1 = hpa_at s" using s1(2) up(5,6) by (simp_all add: at_defs fun_eq_iff)
  ultimately show ?thesis using s1(1) by blast
qed

lemma status_effect:
  assumes "intent_at s t = Some i" and "\<not> i_Deleting i"
  shows "\<exists>s' i'. WriteStatus k i st s = (None, s') \<and> same_spec i i' \<and>
    intent_at s' = (intent_at s)(t \<mapsto> i') \<and> dep_at s' = dep_at s \<and> hpa_at s' = hpa_at s"
proof -
  obtain u where u: "intents (world s) (Namespace t) (Name t) = Some u" "parseIntent k u = Inr i" using assms(1) by (auto simp: intent_at_iff)
  note i = parsed_target [OF u]
  let ?u = "\<lparr>u_Object = map_put ''status'' (VMap (status_map st)) (u_Object u)\<rparr>"
  have fields: "at_path (u_Object ?u) [''metadata'', f] = at_path (u_Object u) [''metadata'', f]" for f by (simp add: at_path.simps)
  have "GetName k ?u = Name t" "GetResourceVersion k ?u = GetResourceVersion k u"
    using intent_named [OF u(1)] fields by (simp_all add: get_name get_version string_at_def)
  then obtain u' w' where up: "Intents_UpdateStatus k (Namespace t) ?u (world s) = (Inr u', w')" "keeps writer_fields u u'" "GetUID k u' = GetUID k u" "GetGeneration k u' = GetGeneration k u"
    "intents w' = (intents (world s))(Namespace t := (intents (world s) (Namespace t))(Name t \<mapsto> u'))" "deps w' = deps (world s)" "hpas w' = hpas (world s)"
    using status_updated [OF u(1)] by blast
  have done_: "WriteStatus k i st s = (None, s')" if "WriteStatus_attempt k i st s = (Inr (), s')" for s'
    using retries_done [where f = "WriteStatus_attempt k i st" and s = s, OF retry_conflict_status that] by (simp add: WriteStatus_def)
  have guards: "\<not> (GetUID k u \<noteq> i_UID i \<or> GetGeneration k u \<noteq> i_Generation i \<or> GetDeletionTimestamp k u \<noteq> None)" using i assms(2) by simp
  show ?thesis
  proof (cases "maps_equal (fst (NestedMap k (u_Object u) [''status''])) (status_map st)")
    case True
    then obtain s1 where "WriteStatus_attempt k i st s = (Inr (), s1)" "world s1 = world s"
      using guards intent_stored [OF u(1)] by (simp add: WriteStatus_attempt_def request_def Let_def i(1))
    moreover have "intent_at s = (intent_at s)(t \<mapsto> i)" using assms(1) by (simp add: fun_upd_idem)
    ultimately show ?thesis using done_ same_world by (metis same_spec_refl)
  next
    case False
    then obtain s1 where s1: "WriteStatus_attempt k i st s = (Inr (), s1)" "world s1 = w'"
      using guards intent_stored [OF u(1)] up(1) by (simp add: WriteStatus_attempt_def request_def Let_def i(1))
    obtain i' where i': "parseIntent k u' = Inr i'" "same_spec i i'" using parse_kept [OF up(2,3,4) u(2)] by blast
    have "intent_at s1 = (intent_at s)(t \<mapsto> i')" using intent_at_update [OF up(5) i'(1) refl s1(2)] by simp
    moreover have "dep_at s1 = dep_at s" "hpa_at s1 = hpa_at s" using s1(2) up(6,7) by (simp_all add: at_defs fun_eq_iff)
    ultimately show ?thesis using done_ [OF s1(1)] i'(2) by blast
  qed
qed

end

sublocale quiet_cluster \<subseteq> qs: quiet_store "kube_store k" scale_writes status_writes kube_scale_for "kube_status_for k" intent_at dep_at hpa_at
proof unfold_locales
  fix s t
  show "\<exists>s'. st_GetIntent (kube_store k) t s = (Inr i, s') \<and> intent_at s' = intent_at s \<and> dep_at s' = dep_at s \<and> hpa_at s' = hpa_at s"
    if "intent_at s t = Some i" for i
  proof -
    obtain u where u: "intents (world s) (Namespace t) (Name t) = Some u" "parseIntent k u = Inr i" using \<open>intent_at s t = Some i\<close> by (auto simp: intent_at_iff)
    from quiet_request [where f = "Intents_Get k (Namespace t) (Name t)" and c = "GetIntentObject (Namespace t) (Name t)", OF intent_stored [OF u(1)]] u(2) show ?thesis by (auto simp: GetIntent_def)
  qed
  show "\<exists>s'. st_GetTarget (kube_store k) t s = (Inr d, s') \<and> intent_at s' = intent_at s \<and> dep_at s' = dep_at s \<and> hpa_at s' = hpa_at s"
    if "dep_at s t = Some d" for d
  proof -
    obtain ad where ad: "deps (world s) (Namespace t) (Name t) = Some ad" "d = deployment_view ad" using \<open>dep_at s t = Some d\<close> by (auto simp: dep_at_def)
    from quiet_request [where f = "Deployments_Get k (Namespace t) (Name t)" and c = "GetDeployment (Namespace t) (Name t)", OF get_stored [OF ad(1)]] ad(2) show ?thesis by (auto simp: GetTarget_def)
  qed
  show "\<exists>s'. st_HasHPA (kube_store k) t s = (Inr (hpa_at s t), s') \<and> intent_at s' = intent_at s \<and> dep_at s' = dep_at s \<and> hpa_at s' = hpa_at s"
    using quiet_request [where f = "HPAs_List k (Namespace t)" and c = "ListHPAs (Namespace t)" and s = s, OF hpas_stored] by (auto simp: HasHPA_def hpa_at_def)
  show "\<exists>s' d'. st_UpdateScale (kube_store k) d n s = (None, s') \<and> scaled_to d n d' \<and>
      dep_at s' = (dep_at s)(t \<mapsto> d') \<and> intent_at s' = intent_at s \<and> hpa_at s' = hpa_at s"
    if "dep_at s t = Some d" for d n
    unfolding kube_store_sel using that by (rule scale_effect)
  show "\<exists>s' i'. st_WriteStatus (kube_store k) i st s = (None, s') \<and> same_spec i i' \<and>
      intent_at s' = (intent_at s)(t \<mapsto> i') \<and> dep_at s' = dep_at s \<and> hpa_at s' = hpa_at s"
    if "intent_at s t = Some i" "\<not> i_Deleting i" for i st
    unfolding kube_store_sel using that by (rule status_effect)
  show "\<exists>e s'. st_GetIntent (kube_store k) t s = (Inl e, s') \<and> intent_at s' = intent_at s \<and> dep_at s' = dep_at s \<and> hpa_at s' = hpa_at s"
    if "intent_at s t = None"
  proof (cases "intents (world s) (Namespace t) (Name t)")
    case None
    then obtain e where "Intents_Get k (Namespace t) (Name t) (world s) = (Inl e, world s)" using intent_missing by blast
    from quiet_request [where f = "Intents_Get k (Namespace t) (Name t)" and c = "GetIntentObject (Namespace t) (Name t)", OF this] show ?thesis
      by (auto simp: GetIntent_def)
  next
    case (Some u)
    then obtain e where "parseIntent k u = Inl e" using \<open>intent_at s t = None\<close> by (auto simp: intent_at_def split: sum.splits)
    then show ?thesis
      using quiet_request [where f = "Intents_Get k (Namespace t) (Name t)" and c = "GetIntentObject (Namespace t) (Name t)", OF intent_stored [OF Some]]
      by (auto simp: GetIntent_def)
  qed
  show "\<exists>e s'. st_GetTarget (kube_store k) t s = (Inl e, s') \<and> intent_at s' = intent_at s \<and> dep_at s' = dep_at s \<and> hpa_at s' = hpa_at s"
    if "dep_at s t = None"
  proof -
    obtain e where "Deployments_Get k (Namespace t) (Name t) (world s) = (Inl e, world s)"
      using get_missing [of "world s" "Namespace t" "Name t"] \<open>dep_at s t = None\<close> by (auto simp: dep_at_def)
    from quiet_request [where f = "Deployments_Get k (Namespace t) (Name t)" and c = "GetDeployment (Namespace t) (Name t)", OF this] show ?thesis
      by (auto simp: GetTarget_def)
  qed
  show "valid_replicas (i_Replicas i)" if "intent_at s t = Some i" for i
    using that parseIntent_replicas by (auto simp: intent_at_iff)
qed

section \<open>An accepted count\<close>

context quiet_cluster
begin

text \<open>The intent that a Set of a count leaves for a Deployment.\<close>

definition stored :: "'w session \<Rightarrow> 'w session \<Rightarrow> target \<Rightarrow> deployment \<Rightarrow> int32 \<Rightarrow> bool" where
  "stored s s' t dep n \<longleftrightarrow> dep_at s' = dep_at s \<and> hpa_at s' = hpa_at s \<and>
     (\<exists>i. intent_at s' = (intent_at s)(t \<mapsto> i) \<and> \<not> i_Deleting i \<and> i_DeploymentUID i = d_UID dep \<and> i_Replicas i = n)"

lemma storedI:
  assumes "intents w' = (intents (world s))(Namespace t := (intents (world s) (Namespace t))(Name t \<mapsto> u))" and "deps w' = deps (world s)"
    and "hpas w' = hpas (world s)" and "parseIntent k u = Inr i" and "\<not> i_Deleting i" and "i_DeploymentUID i = d_UID dep" and "i_Replicas i = n"
    and "world s' = w'"
  shows "stored s s' t dep n"
  using assms intent_at_update [OF assms(1,4) refl assms(8)] by (auto simp: stored_def dep_at_def hpa_at_def fun_eq_iff)

lemma create_effect:
  assumes "intents (world s) (Namespace (d_Target dep)) (Name (d_Target dep)) = None" and "d_UID dep \<noteq> []" and "valid_replicas n"
  shows "\<exists>u' w'. Intents_Create k (Namespace (d_Target dep)) (new_intent k dep n) (world s) = (Inr u', w') \<and>
    (\<forall>s'. world s' = w' \<longrightarrow> stored s s' (d_Target dep) dep n)"
proof -
  let ?u = "new_intent k dep n" and ?ns = "Namespace (d_Target dep)" and ?name = "Name (d_Target dep)"
  have names: "GetNamespace k ?u = ?ns" "GetName k ?u = ?name" by (simp_all add: get_name get_namespace string_at_def new_intent_paths)
  have "at_path (u_Object ?u) [''metadata'', ''deletionTimestamp''] = None"
    by (simp add: new_intent_def set_owner_other unrelated_def) (simp add: at_path.simps)
  then have live: "GetDeletionTimestamp k ?u = None" by (rule deletion_absent)
  obtain u' w' where u': "Intents_Create k ?ns ?u (world s) = (Inr u', w')" "keeps writer_fields ?u u'"
    "intents w' = (intents (world s))(?ns := (intents (world s) ?ns)(?name \<mapsto> u'))" "deps w' = deps (world s)" "hpas w' = hpas (world s)"
    using intent_created [OF assms(1) names] by blast
  obtain i where i: "parseIntent k u' = Inr i" "\<not> i_Deleting i" "i_DeploymentUID i = d_UID dep" "i_Replicas i = n"
    using parse_writer [OF u'(2) new_intent_paths(3) names(2) new_intent_paths(4) assms(2) new_intent_paths(5) assms(3)] live by simp
  have "stored s s' (d_Target dep) dep n" if "world s' = w'" for s'
    using u'(3,4,5) i that by (rule storedI)
  with u'(1) show ?thesis by blast
qed

lemma update_effect:
  assumes "intents (world s) (Namespace (d_Target dep)) (Name (d_Target dep)) = Some u" and "parseIntent k u = Inr i" and "\<not> i_Deleting i"
    and "i_DeploymentUID i = d_UID dep" and "valid_replicas n"
    and "SetNestedField k (u_Object u) (VInt (int64_of n)) [''spec'', ''replicas''] = Inr obj"
  shows "\<exists>u' w'. Intents_Update k (Namespace (d_Target dep)) \<lparr>u_Object = obj\<rparr> (world s) = (Inr u', w') \<and>
    (\<forall>s'. world s' = w' \<longrightarrow> stored s s' (d_Target dep) dep n)"
proof -
  let ?u = "\<lparr>u_Object = obj\<rparr>" and ?ns = "Namespace (d_Target dep)" and ?name = "Name (d_Target dep)"
  have fields: "at_path obj q = at_path (u_Object u) q" if "unrelated [''spec'', ''replicas''] q" for q
    using set_nested_other [OF assms(6) that] .
  have names: "GetNamespace k ?u = ?ns" "GetName k ?u = ?name" "GetResourceVersion k ?u = GetResourceVersion k u"
    using intent_named [OF assms(1)] by (simp_all add: get_name get_namespace get_version string_at_def fields unrelated_def)
  have live: "GetDeletionTimestamp k ?u = None"
    using parsed_target(4) [OF assms(1,2)] assms(3) deletion_field [of ?u u] by (simp add: fields unrelated_def)
  have paths: "at_path (u_Object ?u) [''spec'', ''deploymentName''] = Some (VString ?name)"
    "at_path (u_Object ?u) [''spec'', ''deploymentUID''] = Some (VString (d_UID dep))" "at_path (u_Object ?u) [''spec'', ''replicas''] = Some (VInt (int64_of n))"
    using parseIntent_paths [OF assms(2)] parsed_target(1) [OF assms(1,2)] assms(4) set_nested [OF assms(6)] by (simp_all add: fields unrelated_def)
  have uid: "d_UID dep \<noteq> []" using parseIntent_uid [OF assms(2)] assms(4) by simp
  obtain u' w' where u': "Intents_Update k ?ns ?u (world s) = (Inr u', w')" "keeps writer_fields ?u u'"
    "intents w' = (intents (world s))(?ns := (intents (world s) ?ns)(?name \<mapsto> u'))" "deps w' = deps (world s)" "hpas w' = hpas (world s)"
    using intent_updated [OF assms(1) names] by blast
  obtain i' where i': "parseIntent k u' = Inr i'" "\<not> i_Deleting i'" "i_DeploymentUID i' = d_UID dep" "i_Replicas i' = n"
    using parse_writer [OF u'(2) paths(1) names(2) paths(2) uid paths(3) assms(5)] live by simp
  have "stored s s' (d_Target dep) dep n" if "world s' = w'" for s'
    using u'(3,4,5) i' that by (rule storedI)
  with u'(1) show ?thesis by blast
qed

lemma setIntent_attempt_effect:
  assumes "setIntent_attempt k dep n expected s = (r, s')" and "d_UID dep \<noteq> []" and "valid_replicas n"
  shows "case r of Inl _ \<Rightarrow> world s' = world s | Inr _ \<Rightarrow> stored s s' (d_Target dep) dep n"
proof (cases "intents (world s) (Namespace (d_Target dep)) (Name (d_Target dep))")
  case None
  obtain e where "Intents_Get k (Namespace (d_Target dep)) (Name (d_Target dep)) (world s) = (Inl e, world s)" using intent_missing [OF None] by blast
  moreover obtain u' w' where "Intents_Create k (Namespace (d_Target dep)) (new_intent k dep n) (world s) = (Inr u', w')"
    "\<And>s'. world s' = w' \<Longrightarrow> stored s s' (d_Target dep) dep n" using create_effect [OF None assms(2,3)] by blast
  ultimately show ?thesis using assms(1) by (auto simp: setIntent_attempt_def request_def Let_def split: if_splits)
next
  case (Some u)
  note get = intent_stored [OF Some]
  show ?thesis
  proof (cases "parseIntent k u")
    case (Inl e)
    with get assms(1) show ?thesis by (auto simp: setIntent_attempt_def request_def Let_def)
  next
    case (Inr i)
    have kept: "stored s s1 (d_Target dep) dep n" if "world s1 = world s" "\<not> i_Deleting i" "i_DeploymentUID i = d_UID dep" "i_Replicas i = n" for s1
    proof -
      have i: "intent_at s (d_Target dep) = Some i" using Some Inr by (auto simp: intent_at_iff)
      then have "intent_at s1 = (intent_at s)(d_Target dep \<mapsto> i)" using same_world [OF that(1)] by (simp add: fun_upd_idem)
      then show ?thesis using that same_world [OF that(1)] by (auto simp: stored_def)
    qed
    have update: "\<exists>u' w'. Intents_Update k (Namespace (d_Target dep)) \<lparr>u_Object = obj\<rparr> (world s) = (Inr u', w') \<and>
        (\<forall>s'. world s' = w' \<longrightarrow> stored s s' (d_Target dep) dep n)"
      if "\<not> i_Deleting i" "i_DeploymentUID i = d_UID dep" "SetNestedField k (u_Object u) (VInt (int64_of n)) [''spec'', ''replicas''] = Inr obj" for obj
      using update_effect [OF Some Inr that(1,2) assms(3) that(3)] .
    show ?thesis
      using assms(1) get Inr kept update
      by (auto simp: setIntent_attempt_def request_def Let_def split: if_splits sum.splits prod.splits)
  qed
qed

text \<open>Failed attempts change nothing, so a Set that succeeds leaves its intent for the Deployment it read.\<close>

lemma setIntent_effect:
  assumes "setIntent k dep n expected s = (Inr res, s')" and "d_UID dep \<noteq> []" and "valid_replicas n"
  shows "stored s s' (d_Target dep) dep n"
proof -
  obtain r0 where run: "OnError_set k (\<lambda>err. IsConflict k err \<or> IsAlreadyExists k err)
      (setIntent_attempt k dep n expected) s = (Inr r0, s')"
    using assms(1) by (cases "OnError_set k (\<lambda>err. IsConflict k err \<or> IsAlreadyExists k err) (setIntent_attempt k dep n expected) s" rule: prod.exhaust)
      (auto simp: setIntent_def elim: map_error.elims)
  have "world s2 = world s" if "world s0 = world s" "setIntent_attempt k dep n expected s0 = (Inl e, s2)" for s0 e s2
    using setIntent_attempt_effect [OF that(2) assms(2,3)] that(1) by simp
  then obtain s0 where "world s0 = world s" "setIntent_attempt k dep n expected s0 = (Inr r0, s')"
    using retries_last [where J = "\<lambda>s0. world s0 = world s", OF retry_on_error run refl] by blast
  then show ?thesis
    using setIntent_attempt_effect [OF _ assms(2,3)] same_world [of s0 s] by (fastforce simp: stored_def)
qed

lemma setIntent_failed:
  assumes "setIntent k dep n expected s = (Inl e, s')" and "d_UID dep \<noteq> []" and "valid_replicas n"
  shows "world s' = world s"
proof -
  have step: "world s2 = world s" if "world s0 = world s" "setIntent_attempt k dep n expected s0 = (Inl e, s2)" for s0 e s2
    using setIntent_attempt_effect [OF that(2) assms(2,3)] that(1) by simp
  obtain r0 where run: "OnError_set k (\<lambda>err. IsConflict k err \<or> IsAlreadyExists k err)
      (setIntent_attempt k dep n expected) s = (r0, s')" "map_error k r0 = Inl e"
    using assms(1) by (auto simp: setIntent_def split: prod.splits)
  obtain e0 where r0: "r0 = Inl e0" using run(2) by (cases r0) simp_all
  have "\<exists>s0. world s0 = world s \<and> setIntent_attempt k dep n expected s0 = (Inl e0, s')"
    by (rule retries_last [OF retry_on_error run(1) [unfolded r0], where J = "\<lambda>s0. world s0 = world s"]) (simp, erule (1) step)
  then show ?thesis by (blast intro: step)
qed

lemma setIntent_no_scale:
  assumes "setIntent k dep n expected s = (r, s')"
  shows "scale_writes s' = scale_writes s"
proof -
  have "\<not> is_scale_write c" if "set_intent_request k dep n expected c" for c using that by (cases c) auto
  with extends_setIntent [OF assms] show ?thesis by (fastforce simp: extends_def log_defs list_all_iff filter_empty_conv)
qed

text \<open>The guards read the cluster and change nothing.\<close>

lemma GetTarget_world: "GetTarget k t s = (r, s') \<Longrightarrow> world s' = world s \<and> (case r of Inl _ \<Rightarrow> dep_at s t = None | Inr d \<Rightarrow> dep_at s t = Some d)"
  using get_stored [of "world s" "Namespace t" "Name t"] get_missing [of "world s" "Namespace t" "Name t"]
  by (cases "deps (world s) (Namespace t) (Name t)") (auto simp: GetTarget_def request_def dep_at_def)

lemma HasHPA_world: "HasHPA k t s = (r, s') \<Longrightarrow> world s' = world s \<and> r = Inr (hpa_at s t)"
  by (auto simp: HasHPA_def request_def hpas_stored hpa_at_def)

lemma checkWritable_world: "checkWritable k d s = (r, s') \<Longrightarrow> world s' = world s"
  by (auto simp: checkWritable_def dest: HasHPA_world split: if_splits prod.splits sum.splits)

lemma set_stored:
  assumes "Backend_Set k 5 t n expected s = (Inr res, s1)" and "valid_replicas n" and "dep_at s t = Some d" and "d_UID d \<noteq> []"
  shows "stored s s1 t d n \<and> \<not> d_Deleting d \<and> \<not> d_Protected d \<and> \<not> hpa_at s t \<and> scale_writes s1 = scale_writes s"
  using assms(1)
proof (cases rule: Backend_Set_cases)
  case (intent dep s2 s3)
  have s2: "dep = d" "world s2 = world s" using GetTarget_world [OF intent(2)] assms(3) by simp_all
  note ok = checkWritable_passed [OF intent(4)]
  have s3: "world s3 = world s" "\<not> hpa_at s t"
    using ok intent(3) s2 same_world [OF s2(2)] HasHPA_world [of t s2 _ s3] by auto
  have "stored s3 s1 t d n" using setIntent_effect [OF intent(6)] intent(3) s2(1) assms(2,4) by simp
  then have "stored s s1 t d n" using same_world [OF s3(1)] by (simp add: stored_def)
  then show ?thesis using ok s2(1) s3(2) setIntent_no_scale [OF intent(6)] extends_no_log [OF intent(5)] by auto
qed simp_all

lemma set_eligible:
  assumes "Backend_Set k 5 t n expected s = (Inr res, s1)" and "valid_replicas n" and "dep_at s t = Some d" and "d_UID d \<noteq> []"
  shows "(\<exists>i. qs.eligible s1 t i d \<and> i_Replicas i = n) \<and> scale_writes s1 = scale_writes s"
  using set_stored [OF assms] assms(2,3) by (auto simp: stored_def qs.eligible_def)

lemma set_converges:
  assumes "Backend_Set k 5 t n expected s = (Inr res, s1)" and "valid_replicas n" and "dep_at s t = Some d" and "d_UID d \<noteq> []"
    and "passes (kube_store k) t (Suc m) s1 = (rs, s')"
  shows "\<exists>d'. dep_at s' t = Some d' \<and> d_UID d' = d_UID d \<and> d_Replicas d' = n \<and> list_all (\<lambda>r. r = None) rs \<and>
    length (scale_writes s') \<le> Suc (length (scale_writes s))"
proof -
  obtain i where i: "qs.eligible s1 t i d" "i_Replicas i = n" "scale_writes s1 = scale_writes s" using set_eligible [OF assms(1-4)] by blast
  from qs.passes_converge [OF i(1) assms(5)] i(2,3) show ?thesis by (auto simp: qs.eligible_def)
qed

end

section \<open>The reference cluster is quiet\<close>

definition ref_deps :: "cluster \<Rightarrow> string \<Rightarrow> string \<rightharpoonup> apps_deployment" where
  "ref_deps w ns n = find_dep ns n (cl_deployments w)"

definition ref_intents :: "cluster \<Rightarrow> string \<Rightarrow> string \<rightharpoonup> unstructured" where
  "ref_intents w ns n = find_intent ns n (cl_intents w)"

definition ref_hpas :: "cluster \<Rightarrow> string \<Rightarrow> hpa list" where
  "ref_hpas w ns = filter (\<lambda>h. h_Namespace h = ns) (cl_hpas w)"

lemmas ref_worlds = ref_deps_def ref_intents_def ref_hpas_def

lemma find_replace_dep:
  "find_dep (ad_Namespace e) (ad_Name e) ds = Some d \<Longrightarrow>
     find_dep ns n (replace_dep e ds) = (if ns = ad_Namespace e \<and> n = ad_Name e then Some e else find_dep ns n ds)"
  by (induction ds) auto

lemma find_intent_named: "find_intent ns n us = Some u \<Longrightarrow> u_namespace u = ns \<and> u_name u = n"
  by (induction us) (auto split: if_splits)

lemma find_replace_intent:
  "find_intent (u_namespace e) (u_name e) us = Some u \<Longrightarrow>
     find_intent ns n (replace_intent e us) = (if ns = u_namespace e \<and> n = u_name e then Some e else find_intent ns n us)"
  by (induction us) auto

lemma stamp_other:
  assumes "unrelated [''metadata'', ''resourceVersion''] q" and "unrelated [''metadata'', ''generation''] q"
  shows "at_path (u_Object (stamp c g u)) q = at_path (u_Object u) q"
  using assms by (simp add: stamp_def set_path_other)

lemma stamp_fields [simp]:
  "u_name (stamp c g u) = u_name u" "u_namespace (stamp c g u) = u_namespace u"
  "keeps writer_fields v (stamp c g u) \<longleftrightarrow> keeps writer_fields v u" "GetUID ref_client (stamp c g u) = GetUID ref_client u"
  by (simp_all add: u_name_def u_namespace_def string_at_def keeps_def writer_fields_def stamp_other unrelated_def ref_client_def)

lemma set_path_same: "at_path (set_path obj x p) p = Some x \<or> set_path obj x p = obj"
  by (auto simp: set_path_def put_path_same split: option.split)

lemma stamp_generation: "u_generation (stamp c (u_generation u) u) = u_generation u"
proof -
  let ?gen = "[''metadata'', ''generation'']"
  let ?obj = "set_path (u_Object u) (VString (version_string c)) [''metadata'', ''resourceVersion'']"
  have "at_path ?obj ?gen = at_path (u_Object u) ?gen" by (rule set_path_other) (simp add: unrelated_def)
  then show ?thesis
    using set_path_same [of ?obj "VInt (u_generation u)" ?gen] by (auto simp: stamp_def u_generation_def int_at_def)
qed

lemma ref_scale_accepted:
  assumes "ref_deps w ns n = Some d" and "sc_UID sc = ad_UID d" and "sc_ResourceVersion sc = ad_ResourceVersion d"
  shows "\<exists>sc' w' d'. ref_update_scale ns n sc w = (Inr sc', w') \<and> same_instance d d' \<and> ad_SpecReplicas d' = Some (sc_SpecReplicas sc) \<and>
    ref_deps w' = (ref_deps w)(ns := (ref_deps w ns)(n \<mapsto> d')) \<and> ref_intents w' = ref_intents w \<and> ref_hpas w' = ref_hpas w"
proof -
  let ?d = "d\<lparr>ad_SpecReplicas := Some (sc_SpecReplicas sc), ad_Generation := ad_Generation d + 1, ad_ResourceVersion := version_string (cl_clock w)\<rparr>"
  let ?w = "w\<lparr>cl_deployments := replace_dep ?d (cl_deployments w), cl_clock := Suc (cl_clock w)\<rparr>"
  have d: "find_dep ns n (cl_deployments w) = Some d" using assms(1) by (simp add: ref_deps_def)
  note nm = find_dep_named [OF d]
  have "ref_deps ?w = (ref_deps w)(ns := (ref_deps w ns)(n \<mapsto> ?d))"
    using find_replace_dep [of ?d "cl_deployments w" d] d nm by (auto simp: ref_deps_def fun_eq_iff)
  moreover have "ref_update_scale ns n sc w = (Inr (scale_of ?d), ?w)"
    using d assms(2,3) by (simp add: ref_update_scale_def lookup_dep_def Let_def)
  moreover have "ref_intents ?w = ref_intents w" "ref_hpas ?w = ref_hpas w" by (simp_all add: ref_worlds fun_eq_iff)
  ultimately show ?thesis by (intro exI [of _ "scale_of ?d"] exI [of _ ?w] exI [of _ ?d]) (simp add: same_instance_def)
qed

text \<open>The worlds the intent requests leave.\<close>

lemma ref_intent_replaced:
  assumes "ref_intents w (u_namespace u) (u_name u) = Some old" and "w' = w\<lparr>cl_intents := replace_intent u (cl_intents w), cl_clock := c\<rparr>"
  shows "ref_intents w' = (ref_intents w)(u_namespace u := (ref_intents w (u_namespace u))(u_name u \<mapsto> u))"
    and "ref_deps w' = ref_deps w" and "ref_hpas w' = ref_hpas w"
  using assms find_replace_intent [of u "cl_intents w" old] by (auto simp: ref_worlds fun_eq_iff)

lemma ref_intent_added:
  assumes "w' = w\<lparr>cl_intents := u # cl_intents w, cl_clock := c\<rparr>"
  shows "ref_intents w' = (ref_intents w)(u_namespace u := (ref_intents w (u_namespace u))(u_name u \<mapsto> u))"
    and "ref_deps w' = ref_deps w" and "ref_hpas w' = ref_hpas w"
  using assms by (auto simp: ref_worlds fun_eq_iff)

lemma ref_intent_created:
  assumes "ref_intents w ns n = None" and "u_namespace u = ns" and "u_name u = n"
  shows "\<exists>u' w'. ref_create_intent ns u w = (Inr u', w') \<and> keeps writer_fields u u' \<and>
    ref_intents w' = (ref_intents w)(ns := (ref_intents w ns)(n \<mapsto> u')) \<and> ref_deps w' = ref_deps w \<and> ref_hpas w' = ref_hpas w"
proof -
  let ?v = "\<lparr>u_Object = set_path (u_Object u) (VString (''uid-'' @ version_string (cl_clock w))) [''metadata'', ''uid'']\<rparr>"
  let ?u = "stamp (cl_clock w) 1 ?v"
  let ?w = "w\<lparr>cl_intents := ?u # cl_intents w, cl_clock := Suc (cl_clock w)\<rparr>"
  have v: "u_namespace ?v = ns" "u_name ?v = n" "keeps writer_fields u ?v"
    using assms(2,3) by (simp_all add: u_name_def u_namespace_def string_at_def keeps_def writer_fields_def set_path_other unrelated_def)
  have "ref_create_intent ns u w = (Inr ?u, ?w)"
    using assms by (simp add: ref_create_intent_def lookup_intent_def ref_intents_def Let_def)
  then show ?thesis
    using v ref_intent_added [where w = w and u = ?u, OF refl, of "Suc (cl_clock w)"] by (intro exI [of _ ?u] exI [of _ ?w]) simp
qed

lemma ref_intent_updated:
  assumes "ref_intents w ns n = Some old" and "u_namespace u = ns" and "u_name u = n" and "u_version u = u_version old"
  shows "\<exists>u' w'. ref_update_intent ns u w = (Inr u', w') \<and> keeps writer_fields u u' \<and>
    ref_intents w' = (ref_intents w)(ns := (ref_intents w ns)(n \<mapsto> u')) \<and> ref_deps w' = ref_deps w \<and> ref_hpas w' = ref_hpas w"
proof -
  let ?u = "stamp (cl_clock w) (u_generation old + 1) u"
  let ?w = "w\<lparr>cl_intents := replace_intent ?u (cl_intents w), cl_clock := Suc (cl_clock w)\<rparr>"
  have "ref_update_intent ns u w = (Inr ?u, ?w)"
    using assms by (simp add: ref_update_intent_def lookup_intent_def ref_intents_def Let_def)
  moreover have "keeps writer_fields u u" by (simp add: keeps_def list_all_iff)
  ultimately show ?thesis
    using assms ref_intent_replaced [where w = w and u = ?u and old = old, OF _ refl, of "Suc (cl_clock w)"] by (intro exI [of _ ?u] exI [of _ ?w]) simp
qed

lemma ref_status_updated:
  assumes "ref_intents w ns n = Some old" and "u_name u = n" and "u_version u = u_version old"
  shows "\<exists>u' w'. ref_update_status ns u w = (Inr u', w') \<and> keeps writer_fields old u' \<and>
    GetUID ref_client u' = GetUID ref_client old \<and> u_generation u' = u_generation old \<and>
    ref_intents w' = (ref_intents w)(ns := (ref_intents w ns)(n \<mapsto> u')) \<and> ref_deps w' = ref_deps w \<and> ref_hpas w' = ref_hpas w"
proof -
  let ?st = "case map_of (u_Object u) ''status'' of None \<Rightarrow> VNull | Some v \<Rightarrow> v"
  let ?v = "\<lparr>u_Object = map_put ''status'' ?st (u_Object old)\<rparr>"
  let ?u = "stamp (cl_clock w) (u_generation old) ?v"
  let ?w = "w\<lparr>cl_intents := replace_intent ?u (cl_intents w), cl_clock := Suc (cl_clock w)\<rparr>"
  have path: "at_path (u_Object ?v) [f, g] = at_path (u_Object old) [f, g]" if "f \<noteq> ''status''" for f g using that by (simp add: at_path.simps)
  have nm: "u_namespace old = ns" "u_name old = n" using find_intent_named assms(1) by (auto simp: ref_intents_def)
  have v: "u_namespace ?v = ns" "u_name ?v = n" "keeps writer_fields old ?v" "GetUID ref_client ?v = GetUID ref_client old" "u_generation ?v = u_generation old"
    using nm path by (simp_all add: u_name_def u_namespace_def u_generation_def string_at_def int_at_def keeps_def writer_fields_def ref_client_def)
  have "ref_update_status ns u w = (Inr ?u, ?w)"
    using assms by (simp add: ref_update_status_def lookup_intent_def ref_intents_def Let_def)
  then show ?thesis
    using assms v stamp_generation [of "cl_clock w" ?v] ref_intent_replaced [where w = w and u = ?u and old = old, OF _ refl, of "Suc (cl_clock w)"]
    by (intro exI [of _ ?u] exI [of _ ?w]) simp
qed

interpretation rq: quiet_cluster ref_client ref_deps ref_intents ref_hpas
proof unfold_locales
  note sel = ref_client_def
  fix w ns n d sc
  show "\<exists>sc' w' d'. Deployments_UpdateScale ref_client ns n sc w = (Inr sc', w') \<and> same_instance d d' \<and>
      ad_SpecReplicas d' = Some (sc_SpecReplicas sc) \<and> ref_deps w' = (ref_deps w)(ns := (ref_deps w ns)(n \<mapsto> d')) \<and>
      ref_intents w' = ref_intents w \<and> ref_hpas w' = ref_hpas w"
    if "ref_deps w ns n = Some d" "sc_UID sc = ad_UID d" "sc_ResourceVersion sc = ad_ResourceVersion d"
    using ref_scale_accepted [OF that] by (simp only: sel kube.simps)
  fix u old
  show "\<exists>u' w'. Intents_Create ref_client ns u w = (Inr u', w') \<and> keeps writer_fields u u' \<and>
      ref_intents w' = (ref_intents w)(ns := (ref_intents w ns)(n \<mapsto> u')) \<and> ref_deps w' = ref_deps w \<and> ref_hpas w' = ref_hpas w"
    if "ref_intents w ns n = None" "GetNamespace ref_client u = ns" "GetName ref_client u = n"
    using that by (simp only: sel kube.simps) (rule ref_intent_created)
  show "\<exists>u' w'. Intents_Update ref_client ns u w = (Inr u', w') \<and> keeps writer_fields u u' \<and>
      ref_intents w' = (ref_intents w)(ns := (ref_intents w ns)(n \<mapsto> u')) \<and> ref_deps w' = ref_deps w \<and> ref_hpas w' = ref_hpas w"
    if "ref_intents w ns n = Some old" "GetNamespace ref_client u = ns" "GetName ref_client u = n"
      "GetResourceVersion ref_client u = GetResourceVersion ref_client old"
    using that by (simp only: sel kube.simps) (rule ref_intent_updated)
  show "\<exists>u' w'. Intents_UpdateStatus ref_client ns u w = (Inr u', w') \<and> keeps writer_fields old u' \<and>
      GetUID ref_client u' = GetUID ref_client old \<and> GetGeneration ref_client u' = GetGeneration ref_client old \<and>
      ref_intents w' = (ref_intents w)(ns := (ref_intents w ns)(n \<mapsto> u')) \<and> ref_deps w' = ref_deps w \<and> ref_hpas w' = ref_hpas w"
    if "ref_intents w ns n = Some old" "GetName ref_client u = n" "GetResourceVersion ref_client u = GetResourceVersion ref_client old"
  proof -
    have "GetName ref_client = u_name" "GetResourceVersion ref_client = u_version" "GetGeneration ref_client = u_generation"
      "Intents_UpdateStatus ref_client = ref_update_status" by (simp_all add: sel)
    then show ?thesis using ref_status_updated [of w ns n old u] that by simp
  qed
qed (auto simp: ref_client_def lookup_dep_def lookup_intent_def ref_worlds scale_of_def dest: find_intent_named split: option.splits)

section \<open>The promise of an accepted request\<close>

text \<open>
  C5. A count the service accepts at level 5 is the count the Deployment gets: in a cluster in which nobody else
  writes, any number of passes (at least one) of the controller over the target all succeed, leave the Deployment of the same UID with the
  requested count in its spec, and send at most one scale write in all.
\<close>

theorem accepted_converges:
  assumes "quiet_cluster k deps intents hpas" and "deps (world s) (Namespace t) (Name t) = Some d" and "ad_UID d \<noteq> []"
    and "Service_Set \<lparr>Backend = kube_backend k 5\<rparr> t req s = (Inr res, s1)"
    and "passes (kube_store k) t (Suc m) s1 = (rs, s')"
  shows "sr_Accepted res \<and> list_all (\<lambda>r. r = None) rs \<and> length (scale_writes s') \<le> Suc (length (scale_writes s)) \<and>
    (\<exists>d'. deps (world s') (Namespace t) (Name t) = Some d' \<and> ad_UID d' = ad_UID d \<and>
       rq_Replicas req = Some (d_Replicas (deployment_view d')))"
proof -
  note q = assms(1)
  note kc = q [unfolded quiet_cluster_def, THEN conjunct1]
  have "admissible t req" using assms(4) by (auto elim: Service_Set_rejectedD)
  then obtain n where n: "rq_Replicas req = Some n" "valid_replicas n" and set: "Backend_Set k 5 t n (rq_ExpectedVersion req) s = (Inr res, s1)"
    using assms(4) by (auto simp: Service_Set_admissible admissible_def split: option.splits)
  note at = quiet_cluster.dep_at_def [OF q]
  have uid: "d_UID (deployment_view d) = ad_UID d" for d by (simp add: deployment_view_def)
  have d: "quiet_cluster.dep_at deps s t = Some (deployment_view d)" using assms(2) by (simp add: at)
  from quiet_cluster.set_converges [OF q set n(2) d _ assms(5)] assms(3) n(1) show ?thesis
    using kube_client.Backend_Set_result(2) [OF kc set] by (auto simp: at uid)
qed

theorem accepted_converges_witness:
  "let s1 = snd (Service_Set \<lparr>Backend = kube_backend ref_client 5\<rparr> shop_web \<lparr>rq_Replicas = Some 5, rq_ExpectedVersion = []\<rparr> shop);
       s' = snd (passes (kube_store ref_client) shop_web 2 s1) in
   length (scale_writes s') \<le> 1 \<and> map_option (\<lambda>d. d_Replicas (deployment_view d)) (ref_deps (world s') ''shop'' ''web'') = Some 5"
proof -
  let ?req = "\<lparr>rq_Replicas = Some 5, rq_ExpectedVersion = []\<rparr>"
  let ?set = "Service_Set \<lparr>Backend = kube_backend ref_client 5\<rparr> shop_web ?req shop"
  let ?run = "passes (kube_store ref_client) shop_web (Suc 1) (snd ?set)"
  have "is_ok (fst ?set)" by code_simp
  then obtain res where "fst ?set = Inr res" by (cases "fst ?set") auto
  then have set: "?set = (Inr res, snd ?set)" by (metis prod.collapse)
  have d: "ref_deps (world shop) (Namespace shop_web) (Name shop_web) = Some (sample_deployment ''shop'' ''web'')"
    "ad_UID (sample_deployment ''shop'' ''web'') \<noteq> []" "scale_writes shop = []" "Namespace shop_web = ''shop''" "Name shop_web = ''web''" by code_simp+
  from accepted_converges [OF rq.quiet_cluster_axioms d(1,2) set, of 1 "fst ?run" "snd ?run"] show ?thesis
    using d(3,4,5) by (auto simp: Let_def numeral_2_eq_2)
qed

end
