(* ===== verification/Controller.thy ===== *)
theory Controller
  imports Kube_Store
begin

text \<open>
  \<^verbatim>\<open>internal/controller/controller.go\<close>: the event handlers, one turn of a worker (\<^verbatim>\<open>process\<close>), and
  \<^verbatim>\<open>Run\<close> with its two workers as a step relation. The work queue and the informer cache package are
  parameters. A ghost log records the operations on the queue in order; no operation looks at it.

  The locale \<open>work_queue\<close> states the documented promise of the queue that the controller relies on
  to serialise passes per target: a key that is being processed is not handed out again before it
  is marked done.
\<close>

section \<open>Queue, cache and state\<close>

datatype queue_op =
    QGet string
  | QQuit
  | QDone string
  | QForget string
  | QAdd string
  | QAddRateLimited string
  | QAddAfter string int
  | QShutDown

text \<open>\<^verbatim>\<open>workqueue.TypedRateLimitingInterface[string]\<close>. \<open>q_Get\<close> yields \<^const>\<open>None\<close> when the queue was shut
  down and is empty.\<close>

record 'q workqueue =
  q_Get :: "'q \<Rightarrow> string option \<times> 'q"
  q_Done :: "string \<Rightarrow> 'q \<Rightarrow> 'q"
  q_Forget :: "string \<Rightarrow> 'q \<Rightarrow> 'q"
  q_Add :: "string \<Rightarrow> 'q \<Rightarrow> 'q"
  q_AddRateLimited :: "string \<Rightarrow> 'q \<Rightarrow> 'q"
  q_AddAfter :: "string \<Rightarrow> int \<Rightarrow> 'q \<Rightarrow> 'q"
  q_NumRequeues :: "string \<Rightarrow> 'q \<Rightarrow> nat"
  q_ShutDown :: "'q \<Rightarrow> 'q"

text \<open>The dynamic type of an event's object, as far as the handlers look at it.\<close>

datatype event_object =
    IntentObject unstructured
  | DeploymentObject apps_deployment
  | HPAObject hpa
  | DeletedFinalStateUnknown string event_object
  | OtherObject

record object_meta =
  m_Generation :: int64
  m_DeletionTimestamp :: "string option"

text \<open>Packages \<^verbatim>\<open>cache\<close> and \<^verbatim>\<open>meta\<close>, and \<^verbatim>\<open>ctx.Err() != nil\<close> for the context of \<^verbatim>\<open>Run\<close>.\<close>

record 'w control =
  KeyFunc :: "event_object \<Rightarrow> gerror + string"
  Accessor :: "event_object \<Rightarrow> gerror + object_meta"
  Intents_GetByKey :: "string \<Rightarrow> 'w \<Rightarrow> (bool \<times> gerror option) \<times> 'w"
  ctx_Err :: "'w \<Rightarrow> bool"

record ('w, 'q) ctl =
  c_session :: "'w session"
  c_queue :: 'q
  c_ops :: "queue_op list"

definition on_queue :: "queue_op \<Rightarrow> ('q \<Rightarrow> 'q) \<Rightarrow> ('w, 'q) ctl \<Rightarrow> ('w, 'q) ctl" where
  "on_queue op f c = c\<lparr>c_queue := f (c_queue c), c_ops := c_ops c @ [op]\<rparr>"

lemma on_queue_sel [simp]:
  "c_session (on_queue op f c) = c_session c" "c_queue (on_queue op f c) = f (c_queue c)"
  "c_ops (on_queue op f c) = c_ops c @ [op]"
  by (simp_all add: on_queue_def)

definition Add where "Add q key = on_queue (QAdd key) (q_Add q key)"
definition Done where "Done q key = on_queue (QDone key) (q_Done q key)"
definition Forget where "Forget q key = on_queue (QForget key) (q_Forget q key)"
definition AddRateLimited where "AddRateLimited q key = on_queue (QAddRateLimited key) (q_AddRateLimited q key)"
definition AddAfter where "AddAfter q key d = on_queue (QAddAfter key d) (q_AddAfter q key d)"
definition ShutDown where "ShutDown q = on_queue QShutDown (q_ShutDown q)"

lemmas queue_calls = Add_def Done_def Forget_def AddRateLimited_def AddAfter_def ShutDown_def

text \<open>Durations in nanoseconds.\<close>

definition Second :: int where "Second = 1000000000"
definition Minute :: int where "Minute = 60 * Second"

section \<open>Event handlers\<close>

definition enqueue :: "'w control \<Rightarrow> 'q workqueue \<Rightarrow> event_object \<Rightarrow> ('w, 'q) ctl \<Rightarrow> ('w, 'q) ctl" where
  "enqueue x q obj c = (case KeyFunc x obj of Inr key \<Rightarrow> Add q key c | Inl _ \<Rightarrow> c)"

text \<open>\<^verbatim>\<open>UpdateFunc\<close> of the intent informer: only a new generation or a deletion counts.\<close>

definition intent_update ::
  "'w control \<Rightarrow> 'q workqueue \<Rightarrow> event_object \<Rightarrow> event_object \<Rightarrow> ('w, 'q) ctl \<Rightarrow> ('w, 'q) ctl" where
  "intent_update x q old new c = (case (Accessor x old, Accessor x new) of
       (Inr om, Inr nm) \<Rightarrow>
         if m_Generation om \<noteq> m_Generation nm \<or> m_DeletionTimestamp nm \<noteq> None then enqueue x q new c else c
     | _ \<Rightarrow> c)"

text \<open>\<^verbatim>\<open>GetIndexer().GetByKey(key)\<close>: whether the intent cache holds the key, and the error.\<close>

definition intent_cached :: "'w control \<Rightarrow> string \<Rightarrow> ('w, 'q) ctl \<Rightarrow> (bool \<times> gerror option) \<times> ('w, 'q) ctl" where
  "intent_cached x key c = (case cached (Intents_GetByKey x key) (c_session c) of
       (r, s) \<Rightarrow> (r, c\<lparr>c_session := s\<rparr>))"

definition depEvent :: "'w control \<Rightarrow> 'q workqueue \<Rightarrow> event_object \<Rightarrow> ('w, 'q) ctl \<Rightarrow> ('w, 'q) ctl" where
  "depEvent x q obj c = (case KeyFunc x obj of
       Inl _ \<Rightarrow> c
     | Inr key \<Rightarrow> (case intent_cached x key c of
           ((exists, err), c1) \<Rightarrow> if err = None \<and> exists then Add q key c1 else c1))"

definition hpaEvent :: "'q workqueue \<Rightarrow> event_object \<Rightarrow> ('w, 'q) ctl \<Rightarrow> ('w, 'q) ctl" where
  "hpaEvent q obj c =
     (case (case obj of DeletedFinalStateUnknown _ o' \<Rightarrow> o' | _ \<Rightarrow> obj) of
        HPAObject h \<Rightarrow> if h_RefKind h = ''Deployment'' then Add q (h_Namespace h @ ''/'' @ h_RefName h) c else c
      | _ \<Rightarrow> c)"

datatype handled =
    IntentAdd event_object
  | IntentUpdate event_object event_object
  | IntentDelete event_object
  | DeploymentAdd event_object
  | DeploymentUpdate event_object event_object
  | DeploymentDelete event_object
  | HPAAdd event_object
  | HPAUpdate event_object event_object
  | HPADelete event_object

text \<open>The registrations of \<^verbatim>\<open>New\<close>: which handler runs on which event.\<close>

fun handle :: "'w control \<Rightarrow> 'q workqueue \<Rightarrow> handled \<Rightarrow> ('w, 'q) ctl \<Rightarrow> ('w, 'q) ctl" where
  "handle x q (IntentAdd obj) c = enqueue x q obj c"
| "handle x q (IntentUpdate old new) c = intent_update x q old new c"
| "handle x q (IntentDelete obj) c = enqueue x q obj c"
| "handle x q (DeploymentAdd obj) c = depEvent x q obj c"
| "handle x q (DeploymentUpdate _ n) c = depEvent x q n c"
| "handle x q (DeploymentDelete obj) c = depEvent x q obj c"
| "handle x q (HPAAdd obj) c = hpaEvent q obj c"
| "handle x q (HPAUpdate old new) c = hpaEvent q new (hpaEvent q old c)"
| "handle x q (HPADelete obj) c = hpaEvent q obj c"

text \<open>\<^verbatim>\<open>New\<close> registers on the informers of intents, Deployments and HPAs in this order and gives up at the first failure:
  the informers with handlers, and whether all have them.\<close>

fun register_handlers :: "(informer \<Rightarrow> bool) \<Rightarrow> informer list \<Rightarrow> informer list \<times> bool" where
  "register_handlers AddEventHandler [] = ([], True)"
| "register_handlers AddEventHandler (i # is) =
     (if AddEventHandler i then (case register_handlers AddEventHandler is of (rs, ok) \<Rightarrow> (i # rs, ok)) else ([], False))"

definition Controller_New :: "(informer \<Rightarrow> bool) \<Rightarrow> informer list \<times> bool" where
  "Controller_New AddEventHandler = register_handlers AddEventHandler [IntentInformer, DeploymentInformer, HPAInformer]"

lemma Controller_New_ok: "Controller_New add = (is, True) \<Longrightarrow> is = [IntentInformer, DeploymentInformer, HPAInformer]"
  by (auto simp: Controller_New_def split: if_splits)

section \<open>One turn of a worker\<close>

text \<open>\<^verbatim>\<open>c.queue.Get()\<close>.\<close>

definition take_key :: "'q workqueue \<Rightarrow> ('w, 'q) ctl \<Rightarrow> string option \<times> ('w, 'q) ctl" where
  "take_key q c = (case q_Get q (c_queue c) of
       (key, q') \<Rightarrow> (key, c\<lparr>c_queue := q', c_ops := c_ops c @ [case key of None \<Rightarrow> QQuit | Some k \<Rightarrow> QGet k]\<rparr>))"

text \<open>The rest of \<^verbatim>\<open>process\<close> for a key, without the deferred \<^verbatim>\<open>Done\<close>.\<close>

definition process_key ::
  "'w kube \<Rightarrow> 'w control \<Rightarrow> 'q workqueue \<Rightarrow> string \<Rightarrow> ('w, 'q) ctl \<Rightarrow> bool \<times> ('w, 'q) ctl" where
  "process_key k x q key c = (case ParseKey key of
       (_, Some err) \<Rightarrow> (True, Forget q key c)
     | (target, None) \<Rightarrow> (case Reconcile (kube_store k) target (c_session c) of
         (err, s) \<Rightarrow> let c1 = c\<lparr>c_session := s\<rparr> in
           if ctx_Err x (world s) then (False, Forget q key c1)
           else (case err of
               Some e \<Rightarrow>
                 if q_NumRequeues q key (c_queue c1) < 8 then (True, AddRateLimited q key c1)
                 else (True, AddAfter q key Minute (Forget q key c1))
             | None \<Rightarrow> (case intent_cached x key (Forget q key c1) of
                   ((exists, _), c2) \<Rightarrow> (True, if exists then AddAfter q key (30 * Second) c2 else c2)))))"

definition process ::
  "'w kube \<Rightarrow> 'w control \<Rightarrow> 'q workqueue \<Rightarrow> ('w, 'q) ctl \<Rightarrow> bool \<times> ('w, 'q) ctl" where
  "process k x q c = (case take_key q c of
       (None, c1) \<Rightarrow> (False, c1)
     | (Some key, c1) \<Rightarrow> (case process_key k x q key c1 of (again, c2) \<Rightarrow> (again, Done q key c2)))"

section \<open>What a turn does to the queue\<close>

lemma intent_cached_sel:
  "intent_cached x key c = (r, c') \<Longrightarrow> c_queue c' = c_queue c \<and> c_ops c' = c_ops c \<and> calls (c_session c') = calls (c_session c)"
  by (auto simp: intent_cached_def dest!: calls_cached split: prod.splits)

text \<open>The operations \<^verbatim>\<open>process\<close> may log between Get and Done, by outcome of the pass.\<close>

inductive verdict_ops :: "string \<Rightarrow> bool \<Rightarrow> queue_op list \<Rightarrow> bool" for key where
  dropped: "verdict_ops key again [QForget key]"
| retried: "verdict_ops key True [QAddRateLimited key]"
| slowed: "verdict_ops key True [QForget key, QAddAfter key Minute]"
| resynced: "verdict_ops key True [QForget key, QAddAfter key (30 * Second)]"

lemma process_key_ops:
  assumes "process_key k x q key c = (again, c')"
  shows "\<exists>ops. c_ops c' = c_ops c @ ops \<and> verdict_ops key again ops"
  using assms
  by (auto simp: process_key_def Let_def queue_calls intro: verdict_ops.intros dest!: intent_cached_sel
      split: prod.splits option.splits if_splits)

lemma process_key_ok:
  assumes "Reconcile (kube_store k) t (c_session c) = (None, s)" and "\<not> ctx_Err x (world s)" and "ParseKey key = (t, None)"
    and "Intents_GetByKey x key (world s) = ((exists, err), w')"
  shows "process_key k x q key c = (True,
     (let c1 = Forget q key (c\<lparr>c_session := s\<lparr>world := w'\<rparr>\<rparr>) in if exists then AddAfter q key (30 * Second) c1 else c1))"
  using assms by (simp add: process_key_def Let_def intent_cached_def cached_def queue_calls on_queue_def)

section \<open>Run\<close>

text \<open>
  \<^verbatim>\<open>Run\<close> waits for the caches, starts two workers, shuts the queue down on cancellation and waits for
  the workers. A worker loops over \<^verbatim>\<open>process\<close>: it takes a key, works on it and marks it done, until a
  turn returns false. Steps of the two workers, event handlers and cancellation interleave; what
  other actors do to the cluster is part of every call.
\<close>

datatype worker = Idle | Busy string | Stopped

datatype phase = Waiting | Running | Draining | Finished

record ('w, 'q) run =
  r_ctl :: "('w, 'q) ctl"
  r_workers :: "worker list"
  r_phase :: phase

definition caches_synced :: "'w kube \<Rightarrow> 'w \<Rightarrow> bool" where
  "caches_synced k w \<longleftrightarrow> Deployments_HasSynced k w \<and> Intents_HasSynced k w \<and> HPAs_HasSynced k w"

inductive run_step :: "'w kube \<Rightarrow> 'w control \<Rightarrow> 'q workqueue \<Rightarrow> ('w, 'q) run \<Rightarrow> ('w, 'q) run \<Rightarrow> bool" for k x q where
  synced: "\<lbrakk>r_phase r = Waiting; caches_synced k (world (c_session (r_ctl r)))\<rbrakk>
    \<Longrightarrow> run_step k x q r (r\<lparr>r_phase := Running, r_workers := [Idle, Idle]\<rparr>)"
| abandoned: "\<lbrakk>r_phase r = Waiting; ctx_Err x (world (c_session (r_ctl r)))\<rbrakk>
    \<Longrightarrow> run_step k x q r (r\<lparr>r_phase := Finished\<rparr>)"
| taken: "\<lbrakk>i < length (r_workers r); r_workers r ! i = Idle; take_key q (r_ctl r) = (Some key, c)\<rbrakk>
    \<Longrightarrow> run_step k x q r (r\<lparr>r_ctl := c, r_workers := (r_workers r)[i := Busy key]\<rparr>)"
| quit: "\<lbrakk>i < length (r_workers r); r_workers r ! i = Idle; take_key q (r_ctl r) = (None, c)\<rbrakk>
    \<Longrightarrow> run_step k x q r (r\<lparr>r_ctl := c, r_workers := (r_workers r)[i := Stopped]\<rparr>)"
| worked: "\<lbrakk>i < length (r_workers r); r_workers r ! i = Busy key; process_key k x q key (r_ctl r) = (again, c)\<rbrakk>
    \<Longrightarrow> run_step k x q r (r\<lparr>r_ctl := Done q key c, r_workers := (r_workers r)[i := if again then Idle else Stopped]\<rparr>)"
| shutdown: "\<lbrakk>r_phase r = Running; ctx_Err x (world (c_session (r_ctl r)))\<rbrakk>
    \<Longrightarrow> run_step k x q r (r\<lparr>r_phase := Draining, r_ctl := ShutDown q (r_ctl r)\<rparr>)"
| finished: "\<lbrakk>r_phase r = Draining; list_all (\<lambda>w. w = Stopped) (r_workers r)\<rbrakk>
    \<Longrightarrow> run_step k x q r (r\<lparr>r_phase := Finished\<rparr>)"
| event: "run_step k x q r (r\<lparr>r_ctl := handle x q e (r_ctl r)\<rparr>)"
| environment: "run_step k x q r (r\<lparr>r_ctl := (r_ctl r)\<lparr>c_session := (c_session (r_ctl r))\<lparr>world := w\<rparr>\<rparr>\<rparr>)"

definition run_start :: "('w, 'q) ctl \<Rightarrow> ('w, 'q) run" where
  "run_start c = \<lparr>r_ctl = c, r_workers = [], r_phase = Waiting\<rparr>"

inductive run_reaches :: "'w kube \<Rightarrow> 'w control \<Rightarrow> 'q workqueue \<Rightarrow> ('w, 'q) ctl \<Rightarrow> ('w, 'q) run \<Rightarrow> bool" for k x q c where
  start: "run_reaches k x q c (run_start c)"
| step: "run_reaches k x q c r \<Longrightarrow> run_step k x q r r' \<Longrightarrow> run_reaches k x q c r'"

text \<open>The two halves of a turn are \<^verbatim>\<open>process\<close>: a worker that takes a key and works on it with no step
  of others in between.\<close>

lemma process_turn:
  assumes "i < length (r_workers r)" and "r_workers r ! i = Idle" and "process k x q (r_ctl r) = (again, c')"
  shows "\<exists>r1 r2. run_step k x q r r1 \<and> (run_step k x q r1 r2 \<or> r1 = r2) \<and> r_ctl r2 = c' \<and>
    r_workers r2 ! i = (if again then Idle else Stopped)"
proof (cases "take_key q (r_ctl r)")
  case (Pair key c)
  show ?thesis
  proof (cases key)
    case None
    with Pair assms run_step.quit [of i r q c k x] show ?thesis by (force simp: process_def)
  next
    case (Some y)
    obtain b c2 where w: "process_key k x q y c = (b, c2)" by fastforce
    let ?r1 = "r\<lparr>r_ctl := c, r_workers := (r_workers r)[i := Busy y]\<rparr>"
    have "run_step k x q r ?r1" using assms Pair Some by (auto intro: run_step.taken)
    moreover have "run_step k x q ?r1 (?r1\<lparr>r_ctl := Done q y c2, r_workers := (r_workers ?r1)[i := if b then Idle else Stopped]\<rparr>)"
      using assms w by (intro run_step.worked) auto
    ultimately show ?thesis using assms Pair Some w
      by (intro exI [of _ ?r1] exI) (auto simp: process_def)
  qed
qed

section \<open>The contract of the queue\<close>

text \<open>
  \<open>processing\<close> observes the keys handed out and not yet marked done. The queue hands out no key that
  is being processed; only Get adds to them and only Done removes.
\<close>

locale work_queue =
  fixes q :: "'q workqueue"
    and invar :: "'q \<Rightarrow> bool"
    and processing :: "'q \<Rightarrow> string set"
  assumes get_key: "invar s \<Longrightarrow> q_Get q s = (Some key, s') \<Longrightarrow>
      invar s' \<and> key \<notin> processing s \<and> processing s' = insert key (processing s)"
    and get_quit: "invar s \<Longrightarrow> q_Get q s = (None, s') \<Longrightarrow> invar s' \<and> processing s' = processing s"
    and done_key: "invar s \<Longrightarrow> invar (q_Done q key s) \<and> processing (q_Done q key s) = processing s - {key}"
    and forget_key: "invar s \<Longrightarrow> invar (q_Forget q key s) \<and> processing (q_Forget q key s) = processing s"
    and add_key: "invar s \<Longrightarrow> invar (q_Add q key s) \<and> processing (q_Add q key s) = processing s"
    and add_limited: "invar s \<Longrightarrow> invar (q_AddRateLimited q key s) \<and> processing (q_AddRateLimited q key s) = processing s"
    and add_after: "invar s \<Longrightarrow> invar (q_AddAfter q key d s) \<and> processing (q_AddAfter q key d s) = processing s"
    and shut_down: "invar s \<Longrightarrow> invar (q_ShutDown q s) \<and> processing (q_ShutDown q s) = processing s"

text \<open>The keys that workers hold, in the order of the workers.\<close>

fun busy :: "worker list \<Rightarrow> string list" where
  "busy [] = []"
| "busy (Busy key # ws) = key # busy ws"
| "busy (w # ws) = busy ws"

text \<open>A worker that holds no key can be replaced by one that does, and back.\<close>

definition holds :: "worker \<Rightarrow> string list" where
  "holds w = (case w of Busy key \<Rightarrow> [key] | _ \<Rightarrow> [])"

lemma holds_simps [simp]: "holds Idle = []" "holds Stopped = []" "holds (Busy key) = [key]"
  "holds (if b then Idle else Stopped) = []"
  by (simp_all add: holds_def)

lemma busy_Cons: "busy (w # ws) = holds w @ busy ws"
  by (cases w) simp_all

lemma busy_append: "busy (us @ ws) = busy us @ busy ws"
  by (induction us) (simp_all add: busy_Cons)

lemma busy_update:
  assumes "i < length ws"
  obtains us vs where "busy ws = us @ holds (ws ! i) @ vs" and "\<And>w. busy (ws[i := w]) = us @ holds w @ vs"
proof -
  have "busy ws = busy (take i ws) @ holds (ws ! i) @ busy (drop (Suc i) ws)"
    using assms id_take_nth_drop [of i ws] by (metis busy_append busy_Cons)
  moreover have "busy (ws[i := w]) = busy (take i ws) @ holds w @ busy (drop (Suc i) ws)" for w
    using assms by (simp add: upd_conv_take_nth_drop busy_append busy_Cons)
  ultimately show thesis using that by blast
qed

text \<open>No key is held twice, and a held key is being processed.\<close>

context work_queue
begin

definition exclusive :: "('w, 'q) run \<Rightarrow> bool" where
  "exclusive r \<longleftrightarrow> invar (c_queue (r_ctl r)) \<and> distinct (busy (r_workers r)) \<and>
     set (busy (r_workers r)) \<subseteq> processing (c_queue (r_ctl r))"

lemma handle_keeps:
  assumes "invar (c_queue c)"
  shows "invar (c_queue (handle x q e c)) \<and> processing (c_queue (handle x q e c)) = processing (c_queue c)"
  using assms
  by (cases e) (auto simp: enqueue_def intent_update_def depEvent_def hpaEvent_def Add_def add_key
      dest!: intent_cached_sel split: sum.splits prod.splits event_object.splits)

lemma process_key_keeps:
  assumes "process_key k x q key c = (again, c')" and "invar (c_queue c)"
  shows "invar (c_queue c') \<and> processing (c_queue c') = processing (c_queue c)"
  using assms
  by (auto simp: process_key_def Let_def Forget_def AddRateLimited_def AddAfter_def forget_key add_limited add_after
      dest!: intent_cached_sel split: prod.splits option.splits if_splits)

lemma exclusive_step:
  assumes "run_step k x q r r'" and "exclusive r"
  shows "exclusive r'"
  using assms
proof (cases rule: run_step.cases)
  case (taken i key c)
  obtain us vs where b: "busy (r_workers r) = us @ vs" "busy (r_workers r') = us @ key # vs"
    using busy_update [OF taken(2)] taken by (metis append_Cons append_Nil holds_simps(1,3) run.select_convs(2) run.surjective run.update_convs(1,2))
  moreover have "q_Get q (c_queue (r_ctl r)) = (Some key, c_queue c)"
    using taken(4) by (auto simp: take_key_def split: prod.splits)
  ultimately show ?thesis
    using get_key assms(2) taken(1) by (fastforce simp: exclusive_def)
next
  case (quit i c)
  then have "q_Get q (c_queue (r_ctl r)) = (None, c_queue c)" by (auto simp: take_key_def split: prod.splits)
  moreover have "busy (r_workers r') = busy (r_workers r)"
    using busy_update [OF quit(2)] quit by (metis append_Nil holds_simps(1,2) run.select_convs(2) run.surjective run.update_convs(1,2))
  ultimately show ?thesis using get_quit assms(2) quit(1) by (auto simp: exclusive_def)
next
  case (worked i key again c)
  obtain us vs where b: "busy (r_workers r) = us @ key # vs" "busy (r_workers r') = us @ vs"
    using busy_update [OF worked(2)] worked by (metis append_Cons append_Nil holds_simps(3,4) run.select_convs(2) run.surjective run.update_convs(1,2))
  then show ?thesis
    using process_key_keeps [OF worked(4)] done_key [of "c_queue c" key] assms(2) worked(1)
    by (auto simp: exclusive_def Done_def)
qed (auto simp: exclusive_def shut_down handle_keeps ShutDown_def)

end

end
