(* ===== verification/Controller_Safety.thy ===== *)
theory Controller_Safety
  imports Controller Ref_Cluster
begin

text \<open>
  Properties of the controller: what one turn of a worker does for every outcome, which events reach
  the queue, and the invariants of \<^verbatim>\<open>Run\<close> with its two workers: passes per key are serialised,
  every Get is balanced by a Done, and nothing is read or written before the caches are filled.

  The reference queue follows the documented behaviour of the client-go work queue: a dirty set, the
  queue of dirty keys not being processed, and the keys being processed. Its Get reports quit on an
  empty queue instead of blocking.
\<close>

section \<open>A reference queue\<close>

record rqueue =
  rq_ready :: "string list"
  rq_dirty :: "string list"
  rq_processing :: "string list"
  rq_failures :: "string list"
  rq_delayed :: "(string \<times> int) list"
  rq_shut :: bool

definition rq_add :: "string \<Rightarrow> rqueue \<Rightarrow> rqueue" where
  "rq_add key s = (if rq_shut s \<or> key \<in> set (rq_dirty s) then s
     else s\<lparr>rq_dirty := key # rq_dirty s,
       rq_ready := (if key \<in> set (rq_processing s) then rq_ready s else rq_ready s @ [key])\<rparr>)"

definition rq_get :: "rqueue \<Rightarrow> string option \<times> rqueue" where
  "rq_get s = (case rq_ready s of
       [] \<Rightarrow> (None, s)
     | key # ready \<Rightarrow> (Some key, s\<lparr>rq_ready := ready, rq_processing := key # rq_processing s,
         rq_dirty := removeAll key (rq_dirty s)\<rparr>))"

definition rq_done :: "string \<Rightarrow> rqueue \<Rightarrow> rqueue" where
  "rq_done key s = s\<lparr>rq_processing := removeAll key (rq_processing s),
     rq_ready := (if key \<in> set (rq_dirty s) \<and> key \<notin> set (rq_ready s) then rq_ready s @ [key] else rq_ready s)\<rparr>"

definition ref_queue :: "rqueue workqueue" where
  "ref_queue = \<lparr>q_Get = rq_get, q_Done = rq_done,
     q_Forget = (\<lambda>key s. s\<lparr>rq_failures := removeAll key (rq_failures s)\<rparr>), q_Add = rq_add,
     q_AddRateLimited = (\<lambda>key s. s\<lparr>rq_failures := key # rq_failures s, rq_delayed := (key, 0) # rq_delayed s\<rparr>),
     q_AddAfter = (\<lambda>key d s. s\<lparr>rq_delayed := (key, d) # rq_delayed s\<rparr>),
     q_NumRequeues = (\<lambda>key s. length (filter (\<lambda>f. f = key) (rq_failures s))),
     q_ShutDown = (\<lambda>s. s\<lparr>rq_shut := True\<rparr>)\<rparr>"



section \<open>Invariants of Run\<close>

definition gets :: "string \<Rightarrow> queue_op list \<Rightarrow> nat" where
  "gets key ops = count_list ops (QGet key)"

definition dones :: "string \<Rightarrow> queue_op list \<Rightarrow> nat" where
  "dones key ops = count_list ops (QDone key)"

lemma verdict_ops_counts: "verdict_ops key again ops \<Longrightarrow> gets y ops = 0 \<and> dones y ops = 0"
  by (auto simp: gets_def dones_def elim!: verdict_ops.cases)

lemma handle_ops: "\<exists>ops. c_ops (handle x q e c) = c_ops c @ ops \<and> gets y ops = 0 \<and> dones y ops = 0"
  by (cases e) (auto simp: enqueue_def intent_update_def depEvent_def hpaEvent_def Add_def gets_def dones_def
      dest!: intent_cached_sel split: sum.splits prod.splits event_object.splits)

lemma handle_calls: "calls (c_session (handle x q e c)) = calls (c_session c)"
  by (cases e) (auto simp: enqueue_def intent_update_def depEvent_def hpaEvent_def Add_def
      dest!: intent_cached_sel split: sum.splits prod.splits event_object.splits)

text \<open>What is counted per key: handed out, and either marked done or still held by a worker.\<close>

definition balanced :: "('w, 'q) run \<Rightarrow> bool" where
  "balanced r \<longleftrightarrow> (\<forall>key. gets key (c_ops (r_ctl r)) = dones key (c_ops (r_ctl r)) + count_list (busy (r_workers r)) key)"

lemma balanced_step:
  assumes "run_step k x q r r'" and "balanced r" and "r_phase r = Waiting \<longrightarrow> r_workers r = []"
  shows "balanced r'"
  using assms(1)
proof (cases rule: run_step.cases)
  case (synced)
  then show ?thesis using assms(2,3) by (simp add: balanced_def)
next
  case (taken i key c)
  obtain us vs where "busy (r_workers r) = us @ vs" "busy (r_workers r') = us @ key # vs"
    using busy_update [OF taken(2)] taken by (metis append_Cons append_Nil holds_simps(1,3) run.select_convs(2) run.surjective run.update_convs(1,2))
  then show ?thesis using taken(1,4) assms(2)
    by (auto simp: balanced_def take_key_def gets_def dones_def split: prod.splits)
next
  case (quit i c)
  have "busy (r_workers r') = busy (r_workers r)"
    using busy_update [OF quit(2)] quit by (metis append_Nil holds_simps(1,2) run.select_convs(2) run.surjective run.update_convs(1,2))
  then show ?thesis using quit(1,4) assms(2)
    by (auto simp: balanced_def take_key_def gets_def dones_def split: prod.splits)
next
  case (worked i key again c)
  obtain us vs where b: "busy (r_workers r) = us @ key # vs" "busy (r_workers r') = us @ vs"
    using busy_update [OF worked(2)] worked by (metis append_Cons append_Nil holds_simps(3,4) run.select_convs(2) run.surjective run.update_convs(1,2))
  obtain ops where "c_ops c = c_ops (r_ctl r) @ ops" "verdict_ops key again ops"
    using process_key_ops [OF worked(4)] by blast
  with b worked(1) assms(2) verdict_ops_counts [of key again ops] show ?thesis
    by (auto simp: balanced_def Done_def gets_def dones_def)
next
  case (event e)
  have "gets y (c_ops (handle x q e (r_ctl r))) = gets y (c_ops (r_ctl r)) \<and>
      dones y (c_ops (handle x q e (r_ctl r))) = dones y (c_ops (r_ctl r))" for y
    using handle_ops [of x q e "r_ctl r" y] by (auto simp: gets_def dones_def)
  with event assms(2) show ?thesis by (simp add: balanced_def)
qed (use assms(2) in \<open>auto simp: balanced_def ShutDown_def gets_def dones_def\<close>)

definition gated :: "('w, 'q) ctl \<Rightarrow> ('w, 'q) run \<Rightarrow> bool" where
  "gated c r \<longleftrightarrow> (r_phase r = Waiting \<longrightarrow> r_workers r = [] \<and> calls (c_session (r_ctl r)) = calls (c_session c)) \<and>
     (r_phase r = Finished \<longrightarrow> list_all (\<lambda>w. w = Stopped) (r_workers r))"

lemma gated_step: "run_step k x q r r' \<Longrightarrow> gated c r \<Longrightarrow> gated c r'"
  by (induction rule: run_step.induct) (auto simp: gated_def handle_calls list_all_length nth_list_update)

lemma run_invariants:
  assumes "run_reaches k x q c r" and "c_ops c = []"
  shows "balanced r \<and> gated c r"
  using assms(1)
proof induction
  case start
  then show ?case using assms(2) by (simp add: balanced_def gated_def run_start_def gets_def dones_def)
next
  case (step r r')
  then show ?case using balanced_step gated_step by (metis gated_def)
qed

lemma stopped_busy: "list_all (\<lambda>w. w = Stopped) ws \<Longrightarrow> busy ws = []"
  by (induction ws) auto

text \<open>Requests and workers exist only after a state in which the caches were filled.\<close>

definition after_sync :: "'w kube \<Rightarrow> 'w control \<Rightarrow> 'q workqueue \<Rightarrow> ('w, 'q) ctl \<Rightarrow> bool" where
  "after_sync k x q c \<longleftrightarrow> (\<exists>r. run_reaches k x q c r \<and> caches_synced k (world (c_session (r_ctl r))))"

lemma run_after_sync:
  assumes "run_reaches k x q c r"
  shows "after_sync k x q c \<or>
    r_phase r \<in> {Waiting, Finished} \<and> r_workers r = [] \<and> calls (c_session (r_ctl r)) = calls (c_session c)"
  using assms
proof induction
  case start
  then show ?case by (simp add: run_start_def)
next
  case (step r r')
  show ?case
  proof (cases "after_sync k x q c")
    case False
    with step.IH have idle: "r_phase r \<in> {Waiting, Finished}" "r_workers r = []"
      "calls (c_session (r_ctl r)) = calls (c_session c)" by auto
    from step.hyps(2) show ?thesis
    proof (cases rule: run_step.cases)
      case synced
      with False step.hyps(1) show ?thesis by (auto simp: after_sync_def)
    qed (use idle in \<open>auto simp: handle_calls\<close>)
  qed simp
qed

lemma take_key_ops: "take_key q c = (Some key, c1) \<Longrightarrow> c_ops c1 = c_ops c @ [QGet key] \<and> c_session c1 = c_session c"
  by (auto simp: take_key_def split: prod.splits)

lemma process_key_calls:
  assumes "process_key k x q key c = (again, c')"
  shows "calls (c_session c') = calls (c_session c) \<or>
    (\<exists>t r s. ParseKey key = (t, None) \<and> Reconcile (kube_store k) t (c_session c) = (r, s) \<and> calls (c_session c') = calls s)"
proof -
  obtain t pe where p: "ParseKey key = (t, pe)" by fastforce
  obtain err s where r: "Reconcile (kube_store k) t (c_session c) = (err, s)" by fastforce
  obtain ex e w' where g: "Intents_GetByKey x key (world s) = ((ex, e), w')"
    by (cases "Intents_GetByKey x key (world s)") auto
  show ?thesis
  proof (cases pe)
    case None
    with assms p r g have "calls (c_session c') = calls s"
      by (cases err) (auto simp: process_key_def Let_def queue_calls intent_cached_def cached_def split: if_splits)
    with None p r show ?thesis by blast
  next
    case (Some e)
    with assms p show ?thesis by (auto simp: process_key_def queue_calls)
  qed
qed

text \<open>HPA events add keys only, and the one the HPA names.\<close>

lemma hpaEvent_ops: "\<exists>us. c_ops (hpaEvent q obj c) = c_ops c @ us"
  by (auto simp: hpaEvent_def Add_def split: event_object.splits)

lemma hpaEvent_names:
  assumes "hpa_targets (Name t) [h]" and "h_Namespace h = Namespace t"
    and "obj = HPAObject h \<or> obj = DeletedFinalStateUnknown key (HPAObject h)"
  shows "c_ops (hpaEvent q obj c) = c_ops c @ [QAdd (Key t)]"
  using assms by (auto simp: hpaEvent_def Key_def Add_def split: if_splits)

section \<open>Properties\<close>


definition idle_control :: "cluster control" where
  "idle_control = \<lparr>KeyFunc = (\<lambda>obj. case obj of IntentObject u \<Rightarrow> Inr (u_namespace u @ ''/'' @ u_name u)
       | DeploymentObject d \<Rightarrow> Inr (ad_Namespace d @ ''/'' @ ad_Name d) | HPAObject h \<Rightarrow> Inr (h_Namespace h @ ''/'' @ h_RefName h)
       | DeletedFinalStateUnknown key _ \<Rightarrow> Inr key | OtherObject \<Rightarrow> Inl type_error),
     Accessor = (\<lambda>obj. case obj of IntentObject u \<Rightarrow> Inr \<lparr>m_Generation = u_generation u, m_DeletionTimestamp = None\<rparr> | _ \<Rightarrow> Inl type_error),
     Intents_GetByKey = (\<lambda>key w. ((key \<in> set (map (\<lambda>u. u_namespace u @ ''/'' @ u_name u) (cl_intents w)), None), w)),
     ctx_Err = (\<lambda>w. False)\<rparr>"

definition two_ready :: "unstructured \<Rightarrow> (cluster, rqueue) ctl" where
  "two_ready u = \<lparr>c_session = shop_with u, c_queue = \<lparr>rq_ready = [''shop/web'', ''shop/api''],
     rq_dirty = [''shop/web'', ''shop/api''], rq_processing = [], rq_failures = [], rq_delayed = [], rq_shut = False\<rparr>, c_ops = []\<rparr>"

text \<open>A run of the reference queue in which both workers hold a key.\<close>

lemma both_busy:
  obtains r where "run_reaches ref_client idle_control ref_queue (two_ready (sample_intent ''uid-of-web'' 7)) r"
    and "busy (r_workers r) = [''shop/web'', ''shop/api'']" and "c_ops (r_ctl r) = [QGet ''shop/web'', QGet ''shop/api'']"
proof -
  let ?c = "two_ready (sample_intent ''uid-of-web'' 7)" and ?reach = "run_reaches ref_client idle_control ref_queue"
  let ?c1 = "snd (take_key ref_queue ?c)"
  let ?c2 = "snd (take_key ref_queue ?c1)"
  let ?r1 = "(run_start ?c)\<lparr>r_phase := Running, r_workers := [Idle, Idle]\<rparr>"
  let ?r2 = "?r1\<lparr>r_ctl := ?c1, r_workers := (r_workers ?r1)[0 := Busy ''shop/web'']\<rparr>"
  let ?r3 = "?r2\<lparr>r_ctl := ?c2, r_workers := (r_workers ?r2)[1 := Busy ''shop/api'']\<rparr>"
  have taken: "fst (take_key ref_queue ?c) = Some ''shop/web''" "fst (take_key ref_queue ?c1) = Some ''shop/api''"
    and ops: "c_ops ?c2 = [QGet ''shop/web'', QGet ''shop/api'']"
    by code_simp+
  have "?reach ?c ?r1"
    by (rule run_reaches.step [OF run_reaches.start], rule run_step.synced)
       (simp_all add: run_start_def caches_synced_def ref_client_def)
  then have "?reach ?c ?r2"
    by (rule run_reaches.step, intro run_step.taken) (simp_all add: run_start_def prod_eq_iff taken)
  then have "?reach ?c ?r3"
    by (rule run_reaches.step, intro run_step.taken) (simp_all add: run_start_def prod_eq_iff taken)
  then show thesis by (rule that) (simp_all add: ops)
qed


text \<open>
  C32. In every state of \<^verbatim>\<open>Run\<close> and for every key, the queue's Get calls are balanced by Done calls
  up to the workers that hold the key; when \<^verbatim>\<open>Run\<close> has returned they are balanced.
\<close>

theorem run_balanced:
  assumes "run_reaches k x q c r" and "c_ops c = []"
  shows "gets key (c_ops (r_ctl r)) = dones key (c_ops (r_ctl r)) + count_list (busy (r_workers r)) key \<and>
    (r_phase r = Finished \<longrightarrow> gets key (c_ops (r_ctl r)) = dones key (c_ops (r_ctl r)))"
  using run_invariants [OF assms] by (auto simp: balanced_def gated_def dest: stopped_busy)

theorem run_balanced_witness:
  "\<exists>r. run_reaches ref_client idle_control ref_queue (two_ready (sample_intent ''uid-of-web'' 7)) r \<and>
     gets ''shop/api'' (c_ops (r_ctl r)) = 1 \<and> dones ''shop/api'' (c_ops (r_ctl r)) = 0 \<and>
     count_list (busy (r_workers r)) ''shop/api'' = 1"
proof -
  have none: "c_ops (two_ready (sample_intent ''uid-of-web'' 7)) = []" by (simp add: two_ready_def)
  obtain r where r: "run_reaches ref_client idle_control ref_queue (two_ready (sample_intent ''uid-of-web'' 7)) r"
    and "busy (r_workers r) = [''shop/web'', ''shop/api'']" "c_ops (r_ctl r) = [QGet ''shop/web'', QGet ''shop/api'']"
    by (rule both_busy)
  with run_balanced [OF r none, of "''shop/api''"] show ?thesis by (intro exI [of _ r]) (simp add: gets_def)
qed

text \<open>
  \<^verbatim>\<open>Run\<close> sends no request to the API server, and starts no worker, unless a state was reached in
  which the Deployment, intent and HPA caches were all synchronised.
\<close>

lemma run_waits:
  assumes "run_reaches k x q c r" and "calls (c_session (r_ctl r)) \<noteq> calls (c_session c) \<or> r_workers r \<noteq> []"
  shows "\<exists>r0. run_reaches k x q c r0 \<and> Deployments_HasSynced k (world (c_session (r_ctl r0))) \<and>
    Intents_HasSynced k (world (c_session (r_ctl r0))) \<and> HPAs_HasSynced k (world (c_session (r_ctl r0)))"
  using run_after_sync [OF assms(1)] assms(2) by (auto simp: after_sync_def caches_synced_def)

text \<open>
  C11. One turn of a worker, for every outcome. It marks the key it took done, last. An invalid key is
  forgotten without any request. A failed pass is always scheduled again: rate limited up to eight
  times, then forgotten and delayed by a minute. A successful pass resets the count and is
  scheduled again after 30 seconds exactly if the intent is still cached. After cancellation the
  worker stops.
\<close>

theorem process_outcomes:
  assumes "take_key q c = (Some key, c1)"
  shows "\<exists>ops. c_ops (snd (process k x q c)) = c_ops c @ [QGet key] @ ops @ [QDone key] \<and>
    (case ParseKey key of
       (_, Some _) \<Rightarrow> fst (process k x q c) \<and> ops = [QForget key] \<and> c_session (snd (process k x q c)) = c_session c
     | (t, None) \<Rightarrow> (case Reconcile (kube_store k) t (c_session c) of (err, s) \<Rightarrow>
         fst (process k x q c) = (\<not> ctx_Err x (world s)) \<and>
         ops = (if ctx_Err x (world s) then [QForget key]
                else if err \<noteq> None \<and> q_NumRequeues q key (c_queue c1) < 8 then [QAddRateLimited key]
                else if err \<noteq> None then [QForget key, QAddAfter key (60 * Second)]
                else if fst (fst (Intents_GetByKey x key (world s))) then [QForget key, QAddAfter key (30 * Second)]
                else [QForget key])))"
proof -
  obtain t pe where p: "ParseKey key = (t, pe)" by fastforce
  obtain err s where r: "Reconcile (kube_store k) t (c_session c) = (err, s)" by fastforce
  obtain ex e w' where g: "Intents_GetByKey x key (world s) = ((ex, e), w')"
    by (cases "Intents_GetByKey x key (world s)") auto
  show ?thesis
    using take_key_ops [OF assms] assms p r g
    by (cases pe; cases err)
       (simp_all add: process_def process_key_def Let_def queue_calls intent_cached_def cached_def Minute_def)
qed

theorem process_outcomes_witness:
  "let c = two_ready (sample_intent ''uid-of-web'' 7); run = process ref_client idle_control ref_queue c in
   fst run \<and> c_ops (snd run) =
     [QGet ''shop/web'', QForget ''shop/web'', QAddAfter ''shop/web'' (30 * Second), QDone ''shop/web'']"
proof -
  let ?c = "two_ready (sample_intent ''uid-of-web'' 7)"
  let ?pass = "Reconcile (kube_store ref_client) shop_web (c_session ?c)"
  have "fst (take_key ref_queue ?c) = Some ''shop/web''" "ParseKey ''shop/web'' = (shop_web, None)" "c_ops ?c = []"
    "fst ?pass = None" "fst (fst (Intents_GetByKey idle_control ''shop/web'' (world (snd ?pass))))" by code_simp+
  moreover from this(1) have "take_key ref_queue ?c = (Some ''shop/web'', snd (take_key ref_queue ?c))" by (simp add: prod_eq_iff)
  ultimately show ?thesis
    using process_outcomes [of ref_queue ?c "''shop/web''" _ ref_client idle_control]
    by (cases ?pass) (auto simp: idle_control_def)
qed

text \<open>
  A turn of a worker scales at most once, and only the target its key names, to a count in range.
\<close>

lemma process_scales_own_key:
  assumes "kube_client k" and "process k x q c = (again, c')"
  shows "scale_writes (c_session c') = scale_writes (c_session c) \<or>
    (\<exists>key t sc. fst (take_key q c) = Some key \<and> ParseKey key = (t, None) \<and> valid_replicas (sc_SpecReplicas sc) \<and>
       scale_writes (c_session c') = scale_writes (c_session c) @ [UpdateScaleOf (Namespace t) (Name t) sc])"
proof (cases "fst (take_key q c)")
  case None
  then show ?thesis using assms(2) by (auto simp: process_def take_key_def split: prod.splits option.splits)
next
  case (Some key)
  then obtain c1 where c1: "take_key q c = (Some key, c1)" by (metis prod.collapse)
  then have sess: "c_session c1 = c_session c" using take_key_ops by blast
  obtain b c2 where c2: "process_key k x q key c1 = (b, c2)" by fastforce
  with assms(2) c1 have c': "c_session c' = c_session c2" by (auto simp: process_def queue_calls)
  from process_key_calls [OF c2] show ?thesis
  proof (elim disjE exE conjE)
    fix t r s
    assume t: "ParseKey key = (t, None)" and run: "Reconcile (kube_store k) t (c_session c1) = (r, s)"
      and eq: "calls (c_session c2) = calls s"
    from kube_client.pass_scales_target [OF assms(1) run] show ?thesis
      using t eq sess c' Some by (simp add: log_defs) blast
  qed (simp add: sess c' log_defs)
qed

text \<open>
  C33. An HPA that can block a Deployment wakes it: when an HPA object that the write guard would
  count against a target is added, deleted, or becomes or ceases to be so by an update, the key of
  that target is added to the queue.
\<close>

theorem hpa_wakes_target:
  assumes "hpa_targets (Name t) [h]" and "h_Namespace h = Namespace t"
    and "e \<in> {HPAAdd (HPAObject h), HPADelete (HPAObject h), HPADelete (DeletedFinalStateUnknown key (HPAObject h)),
      HPAUpdate (HPAObject h) other, HPAUpdate other (HPAObject h)}"
  shows "\<exists>us vs. c_ops (handle x q e c) = c_ops c @ us @ [QAdd (Key t)] @ vs"
proof -
  have names: "c_ops (hpaEvent q (HPAObject h) d) = c_ops d @ [QAdd (Key t)]"
    "c_ops (hpaEvent q (DeletedFinalStateUnknown key (HPAObject h)) d) = c_ops d @ [QAdd (Key t)]" for d
    by (rule hpaEvent_names [OF assms(1,2), of _ key], simp)+
  obtain us where us: "c_ops (hpaEvent q other c) = c_ops c @ us" using hpaEvent_ops by blast
  obtain vs where vs: "c_ops (hpaEvent q other (hpaEvent q (HPAObject h) c)) = c_ops c @ [QAdd (Key t)] @ vs"
    using hpaEvent_ops [of q other "hpaEvent q (HPAObject h) c"] by (auto simp: names)
  from assms(3) show ?thesis
    by (elim insertE; (simp add: names us vs)?) blast+
qed

theorem hpa_wakes_target_witness:
  "let h = \<lparr>h_Namespace = ''shop'', h_RefKind = ''Deployment'', h_RefName = ''web'', h_RefAPIVersion = ''apps/v1''\<rparr> in
   \<exists>us vs. c_ops (handle idle_control ref_queue (HPADelete (HPAObject h)) (two_ready (sample_intent [] 7))) =
     us @ [QAdd ''shop/web''] @ vs"
proof -
  let ?h = "\<lparr>h_Namespace = ''shop'', h_RefKind = ''Deployment'', h_RefName = ''web'', h_RefAPIVersion = ''apps/v1''\<rparr>"
  have "hpa_targets (Name shop_web) [?h]" "h_Namespace ?h = Namespace shop_web" "Key shop_web = ''shop/web''"
    "c_ops (two_ready (sample_intent [] 7)) = []" by code_simp+
  with hpa_wakes_target [of shop_web ?h "HPADelete (HPAObject ?h)" _ _ idle_control ref_queue "two_ready (sample_intent [] 7)"]
  show ?thesis by (auto simp del: handle.simps hpa_targets.simps)
qed

end
