(* ===== verification/Replica_System.thy ===== *)
theory Replica_System
  imports Convergence Controller_Safety
begin

text \<open>
  The API and the controller together, against a specification that knows no intents, versions, caches or
  queues: per target a desired count, the count the Deployment runs with, and whether it may be scaled. Set
  requests and the steps of the controller's two workers interleave in any order; every such run of the program over a
  cluster in which nobody else writes implements the specification.
\<close>

section \<open>The specification\<close>

record spec_state =
  desired :: "target \<rightharpoonup> int32"
  running :: "target \<rightharpoonup> int32"
  scalable :: "target \<Rightarrow> bool"

text \<open>A controller turn for a target brings the running count to the desired one, if there is one and the target may be scaled.\<close>

definition scale_target :: "target \<Rightarrow> spec_state \<Rightarrow> spec_state" where
  "scale_target t a = (case desired a t of
       None \<Rightarrow> a
     | Some n \<Rightarrow> if scalable a t then a\<lparr>running := (running a)(t \<mapsto> n)\<rparr> else a)"

datatype sys_event =
    SetAnswered target set_request "gerror + set_result"
  | Worked string
  | Silent

fun spec_step :: "sys_event \<Rightarrow> spec_state \<Rightarrow> spec_state" where
  "spec_step (SetAnswered t req (Inr _)) a =
     (case rq_Replicas req of None \<Rightarrow> a | Some n \<Rightarrow> a\<lparr>desired := (desired a)(t \<mapsto> n)\<rparr>)"
| "spec_step (SetAnswered t req (Inl _)) a = a"
| "spec_step (Worked key) a = (case ParseKey key of (t, None) \<Rightarrow> scale_target t a | (_, Some _) \<Rightarrow> a)"
| "spec_step Silent a = a"

text \<open>What a state of the store means: the desired count is that of a live intent for the very Deployment that exists.\<close>

definition spec_view :: "(target \<rightharpoonup> intent) \<Rightarrow> (target \<rightharpoonup> deployment) \<Rightarrow> (target \<Rightarrow> bool) \<Rightarrow> spec_state" where
  "spec_view ia da ha =
     \<lparr>desired = (\<lambda>t. case (ia t, da t) of
        (Some i, Some d) \<Rightarrow> if \<not> i_Deleting i \<and> i_DeploymentUID i = d_UID d then Some (i_Replicas i) else None
      | _ \<Rightarrow> None),
      running = (\<lambda>t. map_option d_Replicas (da t)),
      scalable = (\<lambda>t. case da t of None \<Rightarrow> False | Some d \<Rightarrow> \<not> d_Deleting d \<and> \<not> d_Protected d \<and> \<not> ha t)\<rparr>"

lemma spec_view_desired:
  "desired (spec_view ia da ha) t = Some n \<longleftrightarrow>
     (\<exists>i d. ia t = Some i \<and> da t = Some d \<and> \<not> i_Deleting i \<and> i_DeploymentUID i = d_UID d \<and> i_Replicas i = n)"
  by (auto simp: spec_view_def split: option.splits)

lemma spec_view_scalable:
  "scalable (spec_view ia da ha) t \<longleftrightarrow> (\<exists>d. da t = Some d \<and> \<not> d_Deleting d \<and> \<not> d_Protected d \<and> \<not> ha t)"
  by (auto simp: spec_view_def split: option.splits)

lemma spec_view_status:
  assumes "ia t = Some i" and "same_spec i i'"
  shows "spec_view (ia(t \<mapsto> i')) da ha = spec_view ia da ha"
  using assms(1) same_specD [OF assms(2)] by (auto simp: spec_view_def fun_eq_iff split: option.splits)

lemma spec_view_scaled:
  assumes "da t = Some d" and "d_UID d' = d_UID d" and "d_Deleting d' = d_Deleting d" and "d_Protected d' = d_Protected d"
  shows "spec_view ia (da(t \<mapsto> d')) ha = (spec_view ia da ha)\<lparr>running := (running (spec_view ia da ha))(t \<mapsto> d_Replicas d')\<rparr>"
  using assms by (auto simp: spec_view_def fun_eq_iff split: option.splits)


section \<open>A pass implements a turn\<close>

definition has_uids :: "(target \<rightharpoonup> deployment) \<Rightarrow> bool" where
  "has_uids da \<longleftrightarrow> (\<forall>t d. da t = Some d \<longrightarrow> d_UID d \<noteq> [])"

lemma has_uids_scaled: "has_uids da \<Longrightarrow> da t = Some d \<Longrightarrow> d_UID d' = d_UID d \<Longrightarrow> has_uids (da(t \<mapsto> d'))"
  by (auto simp: has_uids_def)

context quiet_store
begin

definition spec_of :: "'s \<Rightarrow> spec_state" where
  "spec_of s = spec_view (intent_at s) (dep_at s) (hpa_at s)"

text \<open>A pass over a target that is not eligible writes at most a status.\<close>

lemma pass_blocked:
  assumes "Reconcile S t s = (r, s')" and "\<nexists>i d. eligible s t i d"
  shows "dep_at s' = dep_at s \<and> hpa_at s' = hpa_at s \<and> (intent_at s' = intent_at s \<or>
    (\<exists>i i'. intent_at s t = Some i \<and> same_spec i i' \<and> intent_at s' = (intent_at s)(t \<mapsto> i')))"
proof (cases "intent_at s t")
  case None
  with quiet_no_intent [of s t] assms(1) show ?thesis by (auto simp: Reconcile_def split: if_splits)
next
  case (Some i)
  obtain s1 where s1: "st_GetIntent S t s = (Inr i, s1)" "intent_at s1 = intent_at s" "dep_at s1 = dep_at s" "hpa_at s1 = hpa_at s"
    using quiet_intent [OF Some] by blast
  have status: ?thesis if "st_WriteStatus S i st s2 = (r, s')" "\<not> i_Deleting i" "intent_at s2 = intent_at s" "dep_at s2 = dep_at s" "hpa_at s2 = hpa_at s" for st s2
    using quiet_status [of s2 t i st] that Some by auto
  note valid = intent_valid [OF Some]
  show ?thesis
  proof (cases "i_Deleting i")
    case True
    with s1 assms(1) show ?thesis by (simp add: Reconcile_def)
  next
    case live: False
    show ?thesis
    proof (cases "dep_at s t")
      case None
      with quiet_no_target [of s1 t] s1 live valid assms(1) status show ?thesis
        by (auto simp: Reconcile_def ValidateReplicas_None split: if_splits)
    next
      case dep: (Some d)
      obtain s2 where s2: "st_GetTarget S t s1 = (Inr d, s2)" "intent_at s2 = intent_at s" "dep_at s2 = dep_at s" "hpa_at s2 = hpa_at s"
        using quiet_target [of s1 t d] s1 dep by auto
      obtain s3 where s3: "st_HasHPA S t s2 = (Inr (hpa_at s t), s3)" "intent_at s3 = intent_at s" "dep_at s3 = dep_at s" "hpa_at s3 = hpa_at s"
        using quiet_hpa [of t s2] s2 by auto
      have run: "Reconcile S t s = reconcile_target S t i d s2"
        using s1(1) s2(1) live valid by (simp add: Reconcile_def ValidateReplicas_None)
      have "i_DeploymentUID i \<noteq> d_UID d \<or> d_Deleting d \<or> d_Protected d \<or> hpa_at s t"
        using assms(2) Some live valid dep by (auto simp: eligible_def)
      with run assms(1) s2 s3 live status show ?thesis
        by (auto simp: reconcile_target_def Let_def split: if_splits)
    qed
  qed
qed

lemma pass_spec:
  assumes "Reconcile S t s = (r, s')"
  shows "spec_of s' = scale_target t (spec_of s) \<and> (has_uids (dep_at s) \<longrightarrow> has_uids (dep_at s'))"
proof (cases "\<exists>i d. eligible s t i d")
  case True
  then obtain i d where e: "eligible s t i d" by blast
  obtain i' d' where p: "eligible s' t i' d'" "same_spec i i'" "d_UID d' = d_UID d" "d_Replicas d' = i_Replicas i"
    "intent_at s' = (intent_at s)(t \<mapsto> i')" "dep_at s' = (dep_at s)(t \<mapsto> d')" "hpa_at s' = hpa_at s"
    using pass_converges [OF e] assms by auto
  have "spec_of s' = (spec_of s)\<lparr>running := (running (spec_of s))(t \<mapsto> d_Replicas d')\<rparr>"
    using e p by (simp add: spec_of_def eligible_def spec_view_status spec_view_scaled)
  moreover have "desired (spec_of s) t = Some (i_Replicas i)" "scalable (spec_of s) t"
    using e by (auto simp: spec_of_def spec_view_desired spec_view_scalable eligible_def)
  moreover have "has_uids (dep_at s) \<longrightarrow> has_uids (dep_at s')" using e p(3,6) by (auto simp: eligible_def intro: has_uids_scaled)
  ultimately show ?thesis using p(4) by (simp add: scale_target_def)
next
  case False
  have "scale_target t (spec_of s) = spec_of s"
    using False intent_valid [of s t] by (auto simp: scale_target_def spec_of_def spec_view_desired spec_view_scalable eligible_def split: option.split)
  moreover have "spec_of s' = spec_of s" "dep_at s' = dep_at s"
    using pass_blocked [OF assms False] by (auto simp: spec_of_def spec_view_status)
  ultimately show ?thesis by simp
qed

end

section \<open>A Set implements a request\<close>


section \<open>Runs of the program\<close>

text \<open>
  A process that serves the API and runs the controller: a Set request is answered, a worker works on the key it holds, or
  the controller takes another step (of a worker, an event handler or \<^verbatim>\<open>Run\<close> itself) that leaves the cluster as it is.
\<close>

inductive system_step ::
  "'w kube \<Rightarrow> 'w control \<Rightarrow> 'q workqueue \<Rightarrow> ('w, 'q) run \<Rightarrow> sys_event \<Rightarrow> ('w, 'q) run \<Rightarrow> bool" for k x q where
  answered: "Service_Set \<lparr>Backend = kube_backend k 5\<rparr> t req (c_session (r_ctl r)) = (res, s)
    \<Longrightarrow> system_step k x q r (SetAnswered t req res) (r\<lparr>r_ctl := (r_ctl r)\<lparr>c_session := s\<rparr>\<rparr>)"
| turned: "\<lbrakk>i < length (r_workers r); r_workers r ! i = Busy key; process_key k x q key (r_ctl r) = (again, c)\<rbrakk>
    \<Longrightarrow> system_step k x q r (Worked key)
      (r\<lparr>r_ctl := Done q key c, r_workers := (r_workers r)[i := if again then Idle else Stopped]\<rparr>)"
| other: "\<lbrakk>run_step k x q r r'; world (c_session (r_ctl r')) = world (c_session (r_ctl r))\<rbrakk>
    \<Longrightarrow> system_step k x q r Silent r'"

inductive system_trace ::
  "'w kube \<Rightarrow> 'w control \<Rightarrow> 'q workqueue \<Rightarrow> ('w, 'q) run \<Rightarrow> sys_event list \<Rightarrow> ('w, 'q) run \<Rightarrow> bool" for k x q r where
  start: "system_trace k x q r [] r"
| snoc: "system_trace k x q r evs r1 \<Longrightarrow> system_step k x q r1 e r2 \<Longrightarrow> system_trace k x q r (evs @ [e]) r2"

inductive_cases trace_startE [elim!]: "system_trace k x q r [] r'"







section \<open>What the specification promises\<close>


lemma scale_target_sel [simp]: "desired (scale_target t a) = desired a" "scalable (scale_target t a) = scalable a"
  by (simp_all add: scale_target_def split: option.split)

lemma spec_step_scalable [simp]: "scalable (spec_step e a) = scalable a"
  by (cases "(e, a)" rule: spec_step.cases) (auto split: option.split prod.split)




lemma fold_scalable [simp]: "scalable (fold spec_step evs a) = scalable a"
  by (induction evs arbitrary: a) auto



section \<open>A sample run\<close>





section \<open>Properties\<close>





end
