(* ===== verification/Health.thy ===== *)
theory Health
  imports Model
begin

text \<open>
  \<^verbatim>\<open>internal/health/health.go\<close>: the atomic fields of \<^verbatim>\<open>State\<close>, its operations, the probe loop and the
  HTTP routes. Wall-clock time is an integer number of nanoseconds since the epoch, stored in 64 bits;
  \<^verbatim>\<open>time.Since\<close> of a time made by \<^verbatim>\<open>time.Unix\<close> compares wall clocks and saturates.

  The history of a process is the list of its probe results and drains; the specification of
  readiness is stated on histories.
\<close>

section \<open>State and operations\<close>

record health_state =
  lastGood :: int64
  lastOK :: bool
  draining :: bool

definition Health_New :: health_state where
  "Health_New = \<lparr>lastGood = 0, lastOK = False, draining = False\<rparr>"

definition Drain :: "health_state \<Rightarrow> health_state" where
  "Drain s = s\<lparr>draining := True\<rparr>"

definition UnixNano :: "int \<Rightarrow> int64" where
  "UnixNano now = word_of_int now"

definition Since :: "int \<Rightarrow> int64 \<Rightarrow> int" where
  "Since now good = max (- (2 ^ 63)) (min (2 ^ 63 - 1) (now - sint good))"

text \<open>\<^verbatim>\<open>Ready\<close>, given what \<^verbatim>\<open>synced\<close> returns and the time.\<close>

definition Ready :: "bool \<Rightarrow> int \<Rightarrow> health_state \<Rightarrow> bool" where
  "Ready synced now s \<longleftrightarrow> (let good = lastGood s in
     \<not> draining s \<and> synced \<and> lastOK s \<and> sint good > 0 \<and> Since now good < 12 * 1000000000)"

text \<open>The closure \<^verbatim>\<open>probe\<close>, given the error of the check and the time after it.\<close>

definition probe :: "gerror option \<Rightarrow> int \<Rightarrow> health_state \<Rightarrow> health_state" where
  "probe err now s =
     (let s1 = s\<lparr>lastOK := (err = None)\<rparr> in if err = None then s1\<lparr>lastGood := UnixNano now\<rparr> else s1)"

text \<open>\<^verbatim>\<open>Run\<close>: a probe at once, then one per tick until the context is done. The outcomes of
  \<^verbatim>\<open>select\<close> and of the checks are the arguments.\<close>

datatype selected = CtxDone | Tick "gerror option" int

fun health_loop :: "selected list \<Rightarrow> health_state \<Rightarrow> health_state" where
  "health_loop [] s = s"
| "health_loop (CtxDone # _) s = s"
| "health_loop (Tick err now # sels) s = health_loop sels (probe err now s)"

definition Health_Run :: "gerror option \<Rightarrow> int \<Rightarrow> selected list \<Rightarrow> health_state \<Rightarrow> health_state" where
  "Health_Run err now sels s = health_loop sels (probe err now s)"

text \<open>
  The routes of \<^verbatim>\<open>Handler\<close> behind \<^verbatim>\<open>http.ServeMux\<close>: a GET pattern matches GET and HEAD, a known path
  with another method is 405, an unknown path 404. The path is in the clean form that the mux routes on (it
  redirects any other to it first). The result is the status and the body.
\<close>

definition ready_response :: "bool \<Rightarrow> nat \<times> string" where
  "ready_response ready = (if \<not> ready then (503, ''not ready'' @ [CHR 0x0A]) else (200, ''ok'' @ [CHR 0x0A]))"

definition Health_Handler :: "string \<Rightarrow> string \<Rightarrow> bool \<Rightarrow> int \<Rightarrow> health_state \<Rightarrow> nat \<times> string" where
  "Health_Handler meth path synced now s =
     (if path = ''/livez'' \<or> path = ''/readyz'' \<or> path = ''/healthz'' then
        if meth \<noteq> ''GET'' \<and> meth \<noteq> ''HEAD'' then (405, ''Method Not Allowed'' @ [CHR 0x0A])
        else if path = ''/livez'' then (200, ''ok'' @ [CHR 0x0A])
        else ready_response (Ready synced now s)
      else (404, ''404 page not found'' @ [CHR 0x0A]))"

section \<open>Histories\<close>

datatype health_event = Probed "gerror option" int | Drained

fun health_apply :: "health_event \<Rightarrow> health_state \<Rightarrow> health_state" where
  "health_apply (Probed err now) s = probe err now s"
| "health_apply Drained s = Drain s"

definition health_after :: "health_event list \<Rightarrow> health_state" where
  "health_after es = fold health_apply es Health_New"

text \<open>The last probe of a history.\<close>

fun last_probe :: "health_event list \<Rightarrow> (gerror option \<times> int) option" where
  "last_probe [] = None"
| "last_probe (Probed err now # es) = (case last_probe es of None \<Rightarrow> Some (err, now) | Some p \<Rightarrow> Some p)"
| "last_probe (Drained # es) = last_probe es"

lemma last_probe_snoc [simp]:
  "last_probe (es @ [Probed err now]) = Some (err, now)" "last_probe (es @ [Drained]) = last_probe es"
  by (induction es rule: last_probe.induct) auto

lemma draining_after: "draining (health_after es) \<longleftrightarrow> Drained \<in> set es"
proof (induction es rule: rev_induct)
  case Nil
  show ?case by (simp add: health_after_def Health_New_def)
next
  case (snoc e es)
  then show ?case by (cases e) (auto simp: health_after_def probe_def Drain_def Let_def)
qed

lemma lastOK_after:
  "lastOK (health_after es) \<longleftrightarrow> (\<exists>now. last_probe es = Some (None, now))"
proof (induction es rule: rev_induct)
  case Nil
  show ?case by (simp add: health_after_def Health_New_def)
next
  case (snoc e es)
  then show ?case by (cases e) (auto simp: health_after_def probe_def Drain_def Let_def)
qed

lemma lastGood_after:
  "last_probe es = Some (None, now) \<Longrightarrow> lastGood (health_after es) = UnixNano now"
proof (induction es rule: rev_induct)
  case (snoc e es)
  then show ?case by (cases e) (auto simp: health_after_def probe_def Drain_def Let_def)
qed simp

text \<open>The times a 64-bit stamp can hold, to the year 2262.\<close>

definition clock_ok :: "health_event \<Rightarrow> bool" where
  "clock_ok e = (case e of Probed _ now \<Rightarrow> 0 < now \<and> now < 2 ^ 63 | Drained \<Rightarrow> True)"

lemma sint_UnixNano: "0 < now \<Longrightarrow> now < 2 ^ 63 \<Longrightarrow> sint (UnixNano now) = now"
  by (simp add: UnixNano_def sint_sbintrunc' signed_take_bit_int_eq_self)

lemma last_probe_clock: "list_all clock_ok es \<Longrightarrow> last_probe es = Some (err, now) \<Longrightarrow> 0 < now \<and> now < 2 ^ 63"
  by (induction es rule: last_probe.induct) (auto simp: clock_ok_def split: option.splits)

lemma Since_less: "0 < at \<Longrightarrow> at < 2 ^ 63 \<Longrightarrow> d < 2 ^ 63 - 1 \<Longrightarrow> - (2 ^ 63) < d \<Longrightarrow>
   Since now (UnixNano at) < d \<longleftrightarrow> now - at < d"
  by (auto simp: Since_def sint_UnixNano)

section \<open>Properties\<close>

text \<open>
  C14. Readiness is a function of the history: a process is ready exactly when it was never drained,
  the caches are synchronised, and the most recent probe succeeded less than 12 seconds ago.
\<close>

theorem ready_history:
  assumes "list_all clock_ok es"
  shows "Ready synced now (health_after es) \<longleftrightarrow>
    Drained \<notin> set es \<and> synced \<and> (\<exists>at. last_probe es = Some (None, at) \<and> now - at < 12 * 1000000000)"
proof (cases "\<exists>at. last_probe es = Some (None, at)")
  case True
  then obtain at where at: "last_probe es = Some (None, at)" by blast
  with last_probe_clock [OF assms at] show ?thesis
    by (auto simp: Ready_def Let_def draining_after lastOK_after lastGood_after sint_UnixNano Since_less)
next
  case False
  then show ?thesis by (auto simp: Ready_def Let_def lastOK_after)
qed

theorem ready_history_witness:
  "Ready True 15000000000 (health_after [Probed None 5000000000]) \<and>
   \<not> Ready True 17000000000 (health_after [Probed None 5000000000]) \<and>
   \<not> Ready True 6000000000 (health_after [Probed None 5000000000, Drained])"
  using ready_history [of "[Probed None 5000000000]" True 15000000000]
    ready_history [of "[Probed None 5000000000]" True 17000000000]
    ready_history [of "[Probed None 5000000000, Drained]" True 6000000000]
  by (simp add: clock_ok_def)

text \<open>
  Draining is permanent: after a drain no probe result and no time makes the process ready
  again, its readiness routes answer 503 to GET, and liveness still answers 200.
\<close>

lemma drain_permanent:
  "\<not> Ready synced now (fold health_apply es (Drain s)) \<and>
   fst (Health_Handler ''GET'' ''/readyz'' synced now (fold health_apply es (Drain s))) = 503 \<and>
   fst (Health_Handler ''GET'' ''/healthz'' synced now (fold health_apply es (Drain s))) = 503 \<and>
   fst (Health_Handler ''GET'' ''/livez'' synced now (fold health_apply es (Drain s))) = 200"
proof -
  have "draining s \<Longrightarrow> draining (fold health_apply es s)" for s
  proof (induction es arbitrary: s)
    case (Cons e es)
    then show ?case by (cases e) (auto simp: probe_def Drain_def Let_def)
  qed simp
  then have "draining (fold health_apply es (Drain s))" by (simp add: Drain_def)
  then have "\<not> Ready synced now (fold health_apply es (Drain s))" by (simp add: Ready_def Let_def)
  then show ?thesis by (simp add: Health_Handler_def ready_response_def)
qed

text \<open>The probes a run of the loop makes after the first one.\<close>

fun ticks :: "selected list \<Rightarrow> health_event list" where
  "ticks (Tick err now # sels) = Probed err now # ticks sels"
| "ticks _ = []"

lemma health_loop_ticks: "health_loop sels s = fold health_apply (ticks sels) s"
  by (induction sels s rule: health_loop.induct) auto

text \<open>
  \<^verbatim>\<open>Run\<close> makes its first probe before any waiting and then one per tick, none after cancellation,
  and it changes the state only by probes: the state it leaves is that of the history of its probes.
\<close>

lemma health_run_history:
  "Health_Run err now sels Health_New = health_after (Probed err now # ticks sels)"
  by (simp add: Health_Run_def health_after_def health_loop_ticks)

end
