(* ===== verification/Grpcapi.thy ===== *)
theory Grpcapi
  imports Kube_Backend Ref_Cluster
begin

text \<open>
  \<^verbatim>\<open>internal/grpcapi/grpc.go\<close> and the messages of \<^verbatim>\<open>gen/replicas/v1\<close> it uses. A request pointer is an
  option, \<^const>\<open>None\<close> for \<^verbatim>\<open>nil\<close>; the generated getters are nil-safe. \<^verbatim>\<open>status.Error\<close> of package
  \<^verbatim>\<open>grpc/status\<close> is the parameter \<open>mk\<close>, of any error type; its documented behaviour is that it
  returns \<^verbatim>\<open>nil\<close> exactly for the code OK (\<open>status_pkg\<close>).
\<close>

section \<open>Messages\<close>

record get_replicas_request =
  gq_Namespace :: string
  gq_Name :: string

record set_replicas_request =
  sq_Namespace :: string
  sq_Name :: string
  sq_Replicas :: "int32 option"
  sq_ExpectedVersion :: string

record list_deployments_request =
  lq_Namespace :: string

record pb_deployment =
  p_Namespace :: string
  p_Name :: string
  p_Uid :: string
  p_ResourceVersion :: string
  p_Replicas :: int32
  p_ReadyReplicas :: int32
  p_AvailableReplicas :: int32
  p_DesiredReplicas :: "int32 option"
  p_IntentVersion :: string
  p_ReconcilePhase :: string
  p_Generation :: int64
  p_ObservedGeneration :: int64

record set_replicas_response =
  sp_Namespace :: string
  sp_Name :: string
  sp_Replicas :: int32
  sp_Version :: string
  sp_Accepted :: bool

definition GetReplicasRequest_GetNamespace :: "get_replicas_request option \<Rightarrow> string" where
  "GetReplicasRequest_GetNamespace x = (case x of None \<Rightarrow> [] | Some m \<Rightarrow> gq_Namespace m)"

definition GetReplicasRequest_GetName :: "get_replicas_request option \<Rightarrow> string" where
  "GetReplicasRequest_GetName x = (case x of None \<Rightarrow> [] | Some m \<Rightarrow> gq_Name m)"

definition SetReplicasRequest_GetNamespace :: "set_replicas_request option \<Rightarrow> string" where
  "SetReplicasRequest_GetNamespace x = (case x of None \<Rightarrow> [] | Some m \<Rightarrow> sq_Namespace m)"

definition SetReplicasRequest_GetName :: "set_replicas_request option \<Rightarrow> string" where
  "SetReplicasRequest_GetName x = (case x of None \<Rightarrow> [] | Some m \<Rightarrow> sq_Name m)"

definition SetReplicasRequest_GetExpectedVersion :: "set_replicas_request option \<Rightarrow> string" where
  "SetReplicasRequest_GetExpectedVersion x = (case x of None \<Rightarrow> [] | Some m \<Rightarrow> sq_ExpectedVersion m)"

definition ListDeploymentsRequest_GetNamespace :: "list_deployments_request option \<Rightarrow> string" where
  "ListDeploymentsRequest_GetNamespace x = (case x of None \<Rightarrow> [] | Some m \<Rightarrow> lq_Namespace m)"

lemmas pb_getters = GetReplicasRequest_GetNamespace_def GetReplicasRequest_GetName_def SetReplicasRequest_GetNamespace_def
  SetReplicasRequest_GetName_def SetReplicasRequest_GetExpectedVersion_def ListDeploymentsRequest_GetNamespace_def

definition toProto :: "deployment \<Rightarrow> pb_deployment" where
  "toProto d = \<lparr>p_Namespace = Namespace (d_Target d), p_Name = Name (d_Target d), p_Uid = d_UID d,
     p_ResourceVersion = d_ResourceVersion d, p_Replicas = d_Replicas d, p_ReadyReplicas = d_ReadyReplicas d,
     p_AvailableReplicas = d_AvailableReplicas d, p_DesiredReplicas = d_DesiredReplicas d,
     p_IntentVersion = d_IntentVersion d, p_ReconcilePhase = d_ReconcilePhase d,
     p_Generation = d_Generation d, p_ObservedGeneration = d_ObservedGeneration d\<rparr>"

section \<open>Errors\<close>

text \<open>The codes of package \<^verbatim>\<open>grpc/codes\<close>; \<^verbatim>\<open>codes.OK\<close> is the zero value.\<close>

datatype grpc_code =
    OK | CodeCanceled | CodeUnknown | CodeInvalidArgument | CodeDeadlineExceeded | CodeNotFound | CodeAlreadyExists
  | CodePermissionDenied | CodeResourceExhausted | CodeFailedPrecondition | CodeAborted | CodeOutOfRange
  | CodeUnimplemented | CodeInternal | CodeUnavailable | CodeDataLoss | CodeUnauthenticated

type_synonym 'e status_error = "grpc_code \<Rightarrow> string \<Rightarrow> 'e option"

text \<open>The map literal of \<^verbatim>\<open>convertError\<close>; a key it does not hold yields the zero value.\<close>

definition code_table :: "(code \<times> grpc_code) list" where
  "code_table =
     [(InvalidArgument, CodeInvalidArgument), (NotFound, CodeNotFound), (Conflict, CodeAborted),
      (Forbidden, CodePermissionDenied), (Unavailable, CodeUnavailable),
      (FailedPrecondition, CodeFailedPrecondition), (Internal, CodeInternal)]"

definition convertError :: "'e status_error \<Rightarrow> gerror \<Rightarrow> 'e option" where
  "convertError mk err =
     (if errors_Is err Canceled then mk CodeCanceled ''request canceled''
      else if errors_Is err DeadlineExceeded then mk CodeDeadlineExceeded ''request timed out''
      else mk (case map_of code_table (ErrorCode (Some err)) of Some c \<Rightarrow> c | None \<Rightarrow> OK) (PublicError (Some err)))"

section \<open>Handlers\<close>

text \<open>A handler returns a response pointer and an error.\<close>

definition GetReplicas ::
  "'e status_error \<Rightarrow> 's service \<Rightarrow> get_replicas_request option \<Rightarrow> 's \<Rightarrow> (pb_deployment option \<times> 'e option) \<times> 's" where
  "GetReplicas mk svc r s =
     (case Service_Get svc (mk_target (GetReplicasRequest_GetNamespace r) (GetReplicasRequest_GetName r)) s of
        (Inl err, s1) \<Rightarrow> ((None, convertError mk err), s1)
      | (Inr d, s1) \<Rightarrow> ((Some (toProto d), None), s1))"

definition SetReplicas ::
  "'e status_error \<Rightarrow> 's service \<Rightarrow> set_replicas_request option \<Rightarrow> 's \<Rightarrow> (set_replicas_response option \<times> 'e option) \<times> 's" where
  "SetReplicas mk svc r s = (case r of
       None \<Rightarrow> ((None, mk CodeInvalidArgument ''request is required''), s)
     | Some m \<Rightarrow> (case Service_Set svc (mk_target (SetReplicasRequest_GetNamespace r) (SetReplicasRequest_GetName r))
             \<lparr>rq_Replicas = sq_Replicas m, rq_ExpectedVersion = SetReplicasRequest_GetExpectedVersion r\<rparr> s of
           (Inl err, s1) \<Rightarrow> ((None, convertError mk err), s1)
         | (Inr d, s1) \<Rightarrow> ((Some \<lparr>sp_Namespace = Namespace (sr_Target d), sp_Name = Name (sr_Target d),
             sp_Replicas = sr_Replicas d, sp_Version = sr_Version d, sp_Accepted = sr_Accepted d\<rparr>, None), s1)))"

definition ListDeployments_handler ::
  "'e status_error \<Rightarrow> 's service \<Rightarrow> list_deployments_request option \<Rightarrow> 's
   \<Rightarrow> ((pb_deployment list option \<times> 'e option) \<times> 's) option" where
  "ListDeployments_handler mk svc r s = (case Service_List svc (ListDeploymentsRequest_GetNamespace r) s of
       None \<Rightarrow> None
     | Some (Inl err, s1) \<Rightarrow> Some ((None, convertError mk err), s1)
     | Some (Inr ds, s1) \<Rightarrow> Some ((Some (map toProto ds), None), s1))"

text \<open>\<^verbatim>\<open>Interceptor\<close>: a panic of the handler becomes an Internal error.\<close>

definition Interceptor :: "'e status_error \<Rightarrow> ('r option \<times> 'e option) outcome \<Rightarrow> 'r option \<times> 'e option" where
  "Interceptor mk out = (case out of
       Returned r \<Rightarrow> r
     | Panicked \<Rightarrow> (None, mk CodeInternal ''internal server error''))"

section \<open>Errors are never lost\<close>

lemma code_table_total:
  assumes "c \<in> set codes"
  shows "\<exists>g. map_of code_table c = Some g \<and> g \<noteq> OK"
proof -
  have "list_all (\<lambda>c. case map_of code_table c of Some g \<Rightarrow> g \<noteq> OK | None \<Rightarrow> False) codes" by code_simp
  with assms show ?thesis by (auto simp: list_all_iff split: option.splits)
qed

lemma code_table_inj:
  assumes "c \<in> set codes" and "c' \<in> set codes"
  shows "map_of code_table c = map_of code_table c' \<longleftrightarrow> c = c'"
proof -
  have "list_all (\<lambda>c. list_all (\<lambda>c'. (map_of code_table c = map_of code_table c') = (c = c')) codes) codes" by code_simp
  with assms show ?thesis by (simp add: list_all_iff)
qed

lemma convertError_E:
  "convertError mk (E c m None) = mk (case map_of code_table c of Some g \<Rightarrow> g | None \<Rightarrow> OK) m"
  by (simp add: convertError_def) (simp add: E_def)

locale status_pkg =
  fixes mk :: "'e status_error"
  assumes status_nil: "mk c m = None \<longleftrightarrow> c = OK"
begin

lemma convertError_known:
  assumes "ErrorCode (Some err) \<in> set codes"
  shows "convertError mk err \<noteq> None"
  using code_table_total [OF assms] by (auto simp: convertError_def status_nil simp del: not_None_eq)

text \<open>A client sees a response or an error, never neither and never both.\<close>

lemma get_answers:
  assumes "GetReplicas mk svc r s = ((resp, err), s')"
    and "\<And>t s e s'. Service_Get svc t s = (Inl e, s') \<Longrightarrow> ErrorCode (Some e) \<in> set codes"
  shows "(resp = None) \<noteq> (err = None)"
  using assms convertError_known
  by (auto simp: GetReplicas_def split: prod.splits sum.splits)

lemma set_answers:
  assumes "SetReplicas mk svc r s = ((resp, err), s')"
    and "\<And>t q s e s'. Service_Set svc t q s = (Inl e, s') \<Longrightarrow> ErrorCode (Some e) \<in> set codes"
  shows "(resp = None) \<noteq> (err = None)"
  using assms convertError_known status_nil [of CodeInvalidArgument]
  by (cases r) (auto simp: SetReplicas_def split: prod.splits sum.splits)

lemma list_answers:
  assumes "ListDeployments_handler mk svc r s = Some ((resp, err), s')"
    and "\<And>ns s e s'. Service_List svc ns s = Some (Inl e, s') \<Longrightarrow> ErrorCode (Some e) \<in> set codes"
  shows "(resp = None) \<noteq> (err = None)"
  using assms convertError_known
  by (auto simp: ListDeployments_handler_def split: prod.splits sum.splits option.splits)

end

text \<open>The error value of a status, for application: the arguments themselves.\<close>

definition plain_status :: "(grpc_code \<times> string) status_error" where
  "plain_status c m = (if c = OK then None else Some (c, m))"

interpretation plain: status_pkg plain_status
  by unfold_locales (simp add: plain_status_def)

section \<open>Properties\<close>

text \<open>Over the Kubernetes backend every method of the adapter answers with exactly one of a response and an error.\<close>

lemma adapter_answers:
  assumes "kube_client k" and "status_pkg mk"
  shows "GetReplicas mk \<lparr>Backend = kube_backend k level\<rparr> gr s = ((gresp, err), s') \<Longrightarrow> (gresp = None) \<noteq> (err = None)"
    and "SetReplicas mk \<lparr>Backend = kube_backend k level\<rparr> sr s = ((sresp, err), s') \<Longrightarrow> (sresp = None) \<noteq> (err = None)"
    and "ListDeployments_handler mk \<lparr>Backend = kube_backend k level\<rparr> lr s = Some ((lresp, err), s') \<Longrightarrow> (lresp = None) \<noteq> (err = None)"
    and "ListDeployments_handler mk \<lparr>Backend = kube_backend k level\<rparr> lr s = None \<Longrightarrow> level < 4"
proof -
  note codes = backend_contract.service_codes [OF kube_client.backend_ok [OF assms(1)]]
  show "GetReplicas mk \<lparr>Backend = kube_backend k level\<rparr> gr s = ((gresp, err), s') \<Longrightarrow> (gresp = None) \<noteq> (err = None)"
    by (rule status_pkg.get_answers [OF assms(2)]) (auto intro: codes)
  show "SetReplicas mk \<lparr>Backend = kube_backend k level\<rparr> sr s = ((sresp, err), s') \<Longrightarrow> (sresp = None) \<noteq> (err = None)"
    by (rule status_pkg.set_answers [OF assms(2)]) (auto intro: codes)
  show "ListDeployments_handler mk \<lparr>Backend = kube_backend k level\<rparr> lr s = Some ((lresp, err), s') \<Longrightarrow> (lresp = None) \<noteq> (err = None)"
    by (rule status_pkg.list_answers [OF assms(2)]) (auto intro: codes)
qed (auto simp: ListDeployments_handler_def Service_List_def Backend_List_def
    split: option.splits prod.splits sum.splits if_splits)

text \<open>
  Clients can tell the program's error codes apart: errors of package model that wrap no context
  error and differ in a known code are reported with different gRPC codes, never OK, and with their own message.
\<close>

lemma grpc_codes_distinct:
  assumes "c \<in> set codes" and "c' \<in> set codes"
  shows "\<exists>g g'. convertError plain_status (E c m None) = Some (g, m) \<and>
    convertError plain_status (E c' m' None) = Some (g', m') \<and> g \<noteq> OK \<and> (g = g' \<longleftrightarrow> c = c')"
proof -
  obtain g g' where "map_of code_table c = Some g" "g \<noteq> OK" "map_of code_table c' = Some g'" "g' \<noteq> OK"
    using code_table_total assms by blast
  with code_table_inj [OF assms] show ?thesis by (auto simp: convertError_E plain_status_def)
qed

text \<open>What a client can read back from a message.\<close>

definition of_proto :: "pb_deployment \<Rightarrow> deployment" where
  "of_proto p = \<lparr>d_Target = mk_target (p_Namespace p) (p_Name p), d_UID = p_Uid p, d_ResourceVersion = p_ResourceVersion p,
     d_Replicas = p_Replicas p, d_ReadyReplicas = p_ReadyReplicas p, d_AvailableReplicas = p_AvailableReplicas p,
     d_Generation = p_Generation p, d_ObservedGeneration = p_ObservedGeneration p,
     d_DesiredReplicas = p_DesiredReplicas p, d_IntentVersion = p_IntentVersion p,
     d_ReconcilePhase = p_ReconcilePhase p, d_Protected = False, d_Deleting = False\<rparr>"

text \<open>
  \<^verbatim>\<open>toProto\<close> keeps every public field of a view: reading the message back gives the view, with the
  two internal write guards cleared.
\<close>

lemma toProto_roundtrip:
  "of_proto (toProto d) = d\<lparr>d_Protected := False, d_Deleting := False\<rparr>"
  by (simp add: of_proto_def toProto_def)

end
