(* ===== verification/Grpc_Service.thy ===== *)
theory Grpc_Service
  imports Grpcapi
begin

text \<open>
  The generated service glue of \<^verbatim>\<open>gen/replicas/v1/replicas_grpc.pb.go\<close>: the server interface with its
  unimplemented default, one handler per method, the service description that names them, and the client
  stubs. Messages travel as values of \<open>pb_message\<close>, what Go passes as \<^verbatim>\<open>interface{}\<close>; a type assertion that does
  not match panics. The connection between stub and handler is grpc-go: the locale \<open>grpc_conn\<close> states what
  it documents of a unary call, and the stubs are proved to reach the adapter's handlers by name.
\<close>

section \<open>The server interface\<close>

datatype pb_message =
    GetReplicasRequest get_replicas_request
  | SetReplicasRequest set_replicas_request
  | ListDeploymentsRequest list_deployments_request
  | DeploymentMessage pb_deployment
  | SetReplicasResponse set_replicas_response
  | ListDeploymentsResponse "pb_deployment list"

text \<open>A method answers with a response pointer and an error, or panics; a listing may not return.\<close>

type_synonym ('r, 'e) answer = "('r option \<times> 'e option) outcome"

record ('s, 'e) replica_service_server =
  srv_GetReplicas :: "get_replicas_request option \<Rightarrow> 's \<Rightarrow> (pb_deployment, 'e) answer \<times> 's"
  srv_SetReplicas :: "set_replicas_request option \<Rightarrow> 's \<Rightarrow> (set_replicas_response, 'e) answer \<times> 's"
  srv_ListDeployments :: "list_deployments_request option \<Rightarrow> 's \<Rightarrow> ((pb_deployment list, 'e) answer \<times> 's) option"

definition UnimplementedReplicaServiceServer :: "'e status_error \<Rightarrow> ('s, 'e) replica_service_server" where
  "UnimplementedReplicaServiceServer mk =
     \<lparr>srv_GetReplicas = (\<lambda>_ s. (Returned (None, mk CodeUnimplemented ''method GetReplicas not implemented''), s)),
      srv_SetReplicas = (\<lambda>_ s. (Returned (None, mk CodeUnimplemented ''method SetReplicas not implemented''), s)),
      srv_ListDeployments = (\<lambda>_ s. Some (Returned (None, mk CodeUnimplemented ''method ListDeployments not implemented''), s))\<rparr>"

text \<open>\<^verbatim>\<open>grpcapi.Server\<close> embeds the default and overrides every method.\<close>

definition grpc_server :: "'e status_error \<Rightarrow> 's service \<Rightarrow> ('s, 'e) replica_service_server" where
  "grpc_server mk svc = (UnimplementedReplicaServiceServer mk)
     \<lparr>srv_GetReplicas := (\<lambda>r s. apfst Returned (GetReplicas mk svc r s)),
      srv_SetReplicas := (\<lambda>r s. apfst Returned (SetReplicas mk svc r s)),
      srv_ListDeployments := (\<lambda>r s. map_option (apfst Returned) (ListDeployments_handler mk svc r s))\<rparr>"

section \<open>Handlers and the service description\<close>

type_synonym ('s, 'e) unary_handler = "pb_message \<Rightarrow> 's \<Rightarrow> ((pb_message, 'e) answer \<times> 's) option"

text \<open>An interceptor gets the full method name and the handler it wraps.\<close>

type_synonym ('s, 'e) unary_interceptor = "string \<Rightarrow> ('s, 'e) unary_handler \<Rightarrow> ('s, 'e) unary_handler"

definition server_interceptor :: "'e status_error \<Rightarrow> ('s, 'e) unary_interceptor" where
  "server_interceptor mk full_method handler req s = map_option (apfst (\<lambda>out. Returned (Interceptor mk out))) (handler req s)"

definition ReplicaService_GetReplicas_FullMethodName :: string where
  "ReplicaService_GetReplicas_FullMethodName = ''/replicas.v1.ReplicaService/GetReplicas''"

definition ReplicaService_SetReplicas_FullMethodName :: string where
  "ReplicaService_SetReplicas_FullMethodName = ''/replicas.v1.ReplicaService/SetReplicas''"

definition ReplicaService_ListDeployments_FullMethodName :: string where
  "ReplicaService_ListDeployments_FullMethodName = ''/replicas.v1.ReplicaService/ListDeployments''"

lemmas full_names = ReplicaService_GetReplicas_FullMethodName_def ReplicaService_SetReplicas_FullMethodName_def
  ReplicaService_ListDeployments_FullMethodName_def

text \<open>A response pointer as an \<^verbatim>\<open>interface{}\<close>.\<close>

definition boxed :: "('r \<Rightarrow> pb_message) \<Rightarrow> ('r, 'e) answer \<Rightarrow> (pb_message, 'e) answer" where
  "boxed c = map_outcome (apfst (map_option c))"

text \<open>The closures \<^verbatim>\<open>handler\<close> of the three generated functions.\<close>

fun get_call :: "('s, 'e) replica_service_server \<Rightarrow> ('s, 'e) unary_handler" where
  "get_call srv (GetReplicasRequest m) s = Some (apfst (boxed DeploymentMessage) (srv_GetReplicas srv (Some m) s))"
| "get_call srv _ s = Some (Panicked, s)"

fun set_call :: "('s, 'e) replica_service_server \<Rightarrow> ('s, 'e) unary_handler" where
  "set_call srv (SetReplicasRequest m) s = Some (apfst (boxed SetReplicasResponse) (srv_SetReplicas srv (Some m) s))"
| "set_call srv _ s = Some (Panicked, s)"

fun list_call :: "('s, 'e) replica_service_server \<Rightarrow> ('s, 'e) unary_handler" where
  "list_call srv (ListDeploymentsRequest m) s = map_option (apfst (boxed ListDeploymentsResponse)) (srv_ListDeployments srv (Some m) s)"
| "list_call srv _ s = Some (Panicked, s)"

text \<open>\<open>dec\<close> fills a new message; without an interceptor the method is called directly.\<close>

type_synonym ('s, 'e) method_handler =
  "('s, 'e) replica_service_server \<Rightarrow> (pb_message \<Rightarrow> 'e + pb_message) \<Rightarrow> ('s, 'e) unary_interceptor option \<Rightarrow>
   's \<Rightarrow> ((pb_message, 'e) answer \<times> 's) option"

definition ReplicaService_GetReplicas_Handler :: "('s, 'e) method_handler" where
  "ReplicaService_GetReplicas_Handler srv dec interceptor s =
     (case dec (GetReplicasRequest \<lparr>gq_Namespace = [], gq_Name = []\<rparr>) of
        Inl err \<Rightarrow> Some (Returned (None, Some err), s)
      | Inr req \<Rightarrow> (case interceptor of
            None \<Rightarrow> get_call srv req s
          | Some ic \<Rightarrow> ic ReplicaService_GetReplicas_FullMethodName (get_call srv) req s))"

definition ReplicaService_SetReplicas_Handler :: "('s, 'e) method_handler" where
  "ReplicaService_SetReplicas_Handler srv dec interceptor s =
     (case dec (SetReplicasRequest \<lparr>sq_Namespace = [], sq_Name = [], sq_Replicas = None, sq_ExpectedVersion = []\<rparr>) of
        Inl err \<Rightarrow> Some (Returned (None, Some err), s)
      | Inr req \<Rightarrow> (case interceptor of
            None \<Rightarrow> set_call srv req s
          | Some ic \<Rightarrow> ic ReplicaService_SetReplicas_FullMethodName (set_call srv) req s))"

definition ReplicaService_ListDeployments_Handler :: "('s, 'e) method_handler" where
  "ReplicaService_ListDeployments_Handler srv dec interceptor s =
     (case dec (ListDeploymentsRequest \<lparr>lq_Namespace = []\<rparr>) of
        Inl err \<Rightarrow> Some (Returned (None, Some err), s)
      | Inr req \<Rightarrow> (case interceptor of
            None \<Rightarrow> list_call srv req s
          | Some ic \<Rightarrow> ic ReplicaService_ListDeployments_FullMethodName (list_call srv) req s))"

record ('s, 'e) service_desc =
  ServiceName :: string
  Methods :: "(string \<times> ('s, 'e) method_handler) list"

definition ReplicaService_ServiceDesc :: "('s, 'e) service_desc" where
  "ReplicaService_ServiceDesc =
     \<lparr>ServiceName = ''replicas.v1.ReplicaService'',
      Methods = [(''GetReplicas'', ReplicaService_GetReplicas_Handler), (''SetReplicas'', ReplicaService_SetReplicas_Handler),
        (''ListDeployments'', ReplicaService_ListDeployments_Handler)]\<rparr>"

text \<open>The default is embedded by value, so the check at the start of the registration passes.\<close>

definition RegisterReplicaServiceServer ::
  "(('s, 'e) service_desc \<Rightarrow> ('s, 'e) replica_service_server \<Rightarrow> 'g \<Rightarrow> 'g) \<Rightarrow> ('s, 'e) replica_service_server \<Rightarrow> 'g \<Rightarrow> 'g" where
  "RegisterReplicaServiceServer register srv g = register ReplicaService_ServiceDesc srv g"

section \<open>Client stubs\<close>

text \<open>\<^verbatim>\<open>Invoke\<close> of a connection: the full method name, the request and the message to fill; it returns an error
  and the message.\<close>

type_synonym ('s, 'e) client_conn = "string \<Rightarrow> pb_message \<Rightarrow> pb_message \<Rightarrow> 's \<Rightarrow> (('e option \<times> pb_message) \<times> 's) option"

definition zero_deployment :: pb_deployment where
  "zero_deployment = \<lparr>p_Namespace = [], p_Name = [], p_Uid = [], p_ResourceVersion = [], p_Replicas = 0, p_ReadyReplicas = 0,
     p_AvailableReplicas = 0, p_DesiredReplicas = None, p_IntentVersion = [], p_ReconcilePhase = [], p_Generation = 0, p_ObservedGeneration = 0\<rparr>"

definition stub_result :: "'e option \<times> pb_message \<Rightarrow> 'e + pb_message" where
  "stub_result r = (case r of (Some err, _) \<Rightarrow> Inl err | (None, out) \<Rightarrow> Inr out)"

definition client_GetReplicas :: "('s, 'e) client_conn \<Rightarrow> get_replicas_request \<Rightarrow> 's \<Rightarrow> (('e + pb_message) \<times> 's) option" where
  "client_GetReplicas cc m s = map_option (apfst stub_result)
     (cc ReplicaService_GetReplicas_FullMethodName (GetReplicasRequest m) (DeploymentMessage zero_deployment) s)"

definition client_SetReplicas :: "('s, 'e) client_conn \<Rightarrow> set_replicas_request \<Rightarrow> 's \<Rightarrow> (('e + pb_message) \<times> 's) option" where
  "client_SetReplicas cc m s = map_option (apfst stub_result)
     (cc ReplicaService_SetReplicas_FullMethodName (SetReplicasRequest m)
        (SetReplicasResponse \<lparr>sp_Namespace = [], sp_Name = [], sp_Replicas = 0, sp_Version = [], sp_Accepted = False\<rparr>) s)"

definition client_ListDeployments :: "('s, 'e) client_conn \<Rightarrow> list_deployments_request \<Rightarrow> 's \<Rightarrow> (('e + pb_message) \<times> 's) option" where
  "client_ListDeployments cc m s = map_option (apfst stub_result)
     (cc ReplicaService_ListDeployments_FullMethodName (ListDeploymentsRequest m) (ListDeploymentsResponse []) s)"

lemmas client_stubs = client_GetReplicas_def client_SetReplicas_def client_ListDeployments_def

section \<open>Panics stay inside\<close>

text \<open>Under the interceptor no handler of the description panics, whatever the server does and whatever was decoded.\<close>

lemmas method_handlers = ReplicaService_GetReplicas_Handler_def ReplicaService_SetReplicas_Handler_def
  ReplicaService_ListDeployments_Handler_def

lemma interceptor_recovers: "server_interceptor mk name handler req s = Some (out, s') \<Longrightarrow> out \<noteq> Panicked"
  by (auto simp: server_interceptor_def)

lemma handlers_recover:
  assumes "h \<in> snd ` set (Methods ReplicaService_ServiceDesc)" and "h srv dec (Some (server_interceptor mk)) s = Some (out, s')"
  shows "out \<noteq> Panicked"
proof -
  have "h = ReplicaService_GetReplicas_Handler \<or> h = ReplicaService_SetReplicas_Handler \<or> h = ReplicaService_ListDeployments_Handler"
    using assms(1) by (simp add: ReplicaService_ServiceDesc_def)
  then show ?thesis
    using assms(2) by (elim disjE) (auto simp: method_handlers split: sum.splits dest: interceptor_recovers)
qed

section \<open>The connection\<close>

text \<open>
  What a unary call promises, for a connection to a process in which the description was registered with \<open>srv\<close> and
  \<open>ic\<close>: a call that does not reach the handler fails and changes nothing; one that does runs the handler of
  the method its full name designates, with the request that was sent or a decoding error; and the call
  succeeds only with the handler's own response.
\<close>

definition decodes :: "pb_message \<Rightarrow> (pb_message \<Rightarrow> 'e + pb_message) \<Rightarrow> bool" where
  "decodes req dec \<longleftrightarrow> (\<forall>new. dec new = Inr req \<or> (\<exists>e. dec new = Inl e))"

definition registered :: "('s, 'e) service_desc \<Rightarrow> string \<rightharpoonup> ('s, 'e) method_handler" where
  "registered desc = map_of (map (\<lambda>(name, h). (''/'' @ ServiceName desc @ ''/'' @ name, h)) (Methods desc))"

lemma registered_methods [simp]:
  "registered ReplicaService_ServiceDesc ReplicaService_GetReplicas_FullMethodName = Some ReplicaService_GetReplicas_Handler"
  "registered ReplicaService_ServiceDesc ReplicaService_SetReplicas_FullMethodName = Some ReplicaService_SetReplicas_Handler"
  "registered ReplicaService_ServiceDesc ReplicaService_ListDeployments_FullMethodName = Some ReplicaService_ListDeployments_Handler"
  by (simp_all add: registered_def ReplicaService_ServiceDesc_def full_names)

locale grpc_conn =
  fixes cc :: "('s, 'e) client_conn" and srv :: "('s, 'e) replica_service_server" and ic :: "('s, 'e) unary_interceptor option"
  assumes invoked: "registered ReplicaService_ServiceDesc name = Some h \<Longrightarrow> cc name req out s = Some ((err, res), s') \<Longrightarrow>
      err \<noteq> None \<and> s' = s \<or>
      (\<exists>dec ans. decodes req dec \<and> h srv dec ic s = Some (ans, s') \<and> (err = None \<longrightarrow> ans = Returned (Some res, None)))"
begin

lemma set_invoked:
  assumes "client_SetReplicas cc m s = Some (r, s')"
  shows "(\<exists>e. r = Inl e) \<and> s' = s \<or>
    (\<exists>dec ans. decodes (SetReplicasRequest m) dec \<and> ReplicaService_SetReplicas_Handler srv dec ic s = Some (ans, s') \<and>
       (case r of Inl _ \<Rightarrow> True | Inr res \<Rightarrow> ans = Returned (Some res, None)))"
proof -
  from assms obtain err res where call: "cc ReplicaService_SetReplicas_FullMethodName (SetReplicasRequest m)
      (SetReplicasResponse \<lparr>sp_Namespace = [], sp_Name = [], sp_Replicas = 0, sp_Version = [], sp_Accepted = False\<rparr>) s = Some ((err, res), s')"
    and r: "r = stub_result (err, res)" by (auto simp: client_SetReplicas_def)
  from invoked [OF registered_methods(2) call] r show ?thesis by (cases err) (auto simp: stub_result_def)
qed

end

text \<open>Over the adapter and its interceptor, a Set stub is the adapter's handler.\<close>

lemma set_handler:
  assumes "decodes (SetReplicasRequest m) dec"
    and "ReplicaService_SetReplicas_Handler (grpc_server mk svc) dec (Some (server_interceptor mk)) s = Some (ans, s')"
  shows "(\<exists>e. ans = Returned (None, Some e)) \<and> s' = s \<or>
    (\<exists>resp err. SetReplicas mk svc (Some m) s = ((resp, err), s') \<and> ans = Returned (map_option SetReplicasResponse resp, err))"
proof -
  let ?new = "SetReplicasRequest \<lparr>sq_Namespace = [], sq_Name = [], sq_Replicas = None, sq_ExpectedVersion = []\<rparr>"
  have "dec ?new = Inr (SetReplicasRequest m) \<or> (\<exists>e. dec ?new = Inl e)" using assms(1) by (auto simp: decodes_def)
  with assms(2) show ?thesis
    by (cases "SetReplicas mk svc (Some m) s")
      (auto simp: ReplicaService_SetReplicas_Handler_def server_interceptor_def Interceptor_def grpc_server_def boxed_def)
qed

lemma stub_set:
  assumes "grpc_conn cc (grpc_server mk svc) (Some (server_interceptor mk))" and "client_SetReplicas cc m s = Some (r, s')"
  shows "(\<exists>e. r = Inl e) \<and> s' = s \<or>
    (\<exists>resp err. SetReplicas mk svc (Some m) s = ((resp, err), s') \<and>
       (case r of Inl _ \<Rightarrow> True | Inr res \<Rightarrow> err = None \<and> (\<exists>p. resp = Some p \<and> res = SetReplicasResponse p)))"
  using grpc_conn.set_invoked [OF assms]
proof (elim disjE exE conjE)
  fix dec ans
  assume "decodes (SetReplicasRequest m) dec" and "ReplicaService_SetReplicas_Handler (grpc_server mk svc) dec (Some (server_interceptor mk)) s = Some (ans, s')"
    and r: "case r of Inl _ \<Rightarrow> True | Inr res \<Rightarrow> ans = Returned (Some res, None)"
  from set_handler [OF this(1,2)] r show ?thesis by (auto simp: map_option_case split: sum.splits option.splits)
qed simp

section \<open>A connection in one process\<close>

text \<open>A connection that dispatches by the description itself and loses nothing.\<close>

fun call_status :: "'e \<Rightarrow> pb_message \<Rightarrow> (pb_message, 'e) answer \<Rightarrow> 'e option \<times> pb_message" where
  "call_status failure out (Returned (Some res, None)) = (None, res)"
| "call_status failure out (Returned (_, Some e)) = (Some e, out)"
| "call_status failure out _ = (Some failure, out)"

lemma call_status_ok: "call_status failure out ans = (None, res) \<Longrightarrow> ans = Returned (Some res, None)"
  by (cases "(failure, out, ans)" rule: call_status.cases) auto

definition local_conn :: "('s, 'e) replica_service_server \<Rightarrow> ('s, 'e) unary_interceptor option \<Rightarrow> 'e \<Rightarrow> ('s, 'e) client_conn" where
  "local_conn srv ic failure name req out s = (case registered ReplicaService_ServiceDesc name of
       None \<Rightarrow> Some ((Some failure, out), s)
     | Some h \<Rightarrow> map_option (apfst (call_status failure out)) (h srv (\<lambda>_. Inr req) ic s))"

interpretation lc: grpc_conn "local_conn srv ic failure" srv ic
  for srv :: "('s, 'e) replica_service_server" and ic failure
proof unfold_locales
  fix name and h :: "('s, 'e) method_handler" and req out s err res s'
  assume h: "registered ReplicaService_ServiceDesc name = Some h" and run: "local_conn srv ic failure name req out s = Some ((err, res), s')"
  from h obtain ans where "h srv (\<lambda>_. Inr req) ic s = Some (ans, s')" "err = None \<longrightarrow> ans = Returned (Some res, None)"
    using run by (auto simp: local_conn_def dest: call_status_ok)
  moreover have "decodes req (\<lambda>_. Inr req)" by (simp add: decodes_def)
  ultimately show "err \<noteq> None \<and> s' = s \<or>
      (\<exists>dec ans. decodes req dec \<and> h srv dec ic s = Some (ans, s') \<and> (err = None \<longrightarrow> ans = Returned (Some res, None)))" by blast
qed

text \<open>A Get over it succeeds exactly if the adapter's handler does.\<close>

lemma local_get:
  "client_GetReplicas (local_conn (grpc_server mk svc) (Some (server_interceptor mk)) failure) m s =
     (case GetReplicas mk svc (Some m) s of ((resp, err), s') \<Rightarrow>
        Some (case (resp, err) of (Some d, None) \<Rightarrow> Inr (DeploymentMessage d) | (_, Some e) \<Rightarrow> Inl e | (None, None) \<Rightarrow> Inl failure, s'))"
  by (simp add: client_GetReplicas_def local_conn_def ReplicaService_GetReplicas_Handler_def server_interceptor_def Interceptor_def
      grpc_server_def boxed_def stub_result_def split: prod.split option.split)

section \<open>Properties\<close>

lemma apfst_iff: "apfst f p = (a, b) \<longleftrightarrow> (\<exists>x. p = (x, b) \<and> f x = a)"
  by (cases p) auto

lemma method_answers:
  assumes "kube_client k" and "status_pkg mk" and "call \<in> {get_call, set_call, list_call}"
  shows "case call (grpc_server mk \<lparr>Backend = kube_backend k level\<rparr>) req s of
    None \<Rightarrow> level < 4 | Some (Returned (resp, err), s') \<Rightarrow> (resp = None) \<noteq> (err = None) | Some (Panicked, s') \<Rightarrow> True"
  using assms(3) adapter_answers [OF assms(1,2), of level _ s]
  by (cases req) (auto simp: grpc_server_def boxed_def apfst_iff split: prod.splits option.splits outcome.splits)

text \<open>
  C35. Whatever a client sends, each of the three methods in the description that is registered, over the Kubernetes backend and
  under the interceptor, returns exactly one of a response and an error: no failure is reported as success, no panic
  leaves the process, a request that does not decode is an error, and only a listing below level 4 may not return.
\<close>

theorem grpc_answers:
  assumes "kube_client k" and "status_pkg mk" and "h \<in> snd ` set (Methods ReplicaService_ServiceDesc)"
  shows "case h (grpc_server mk \<lparr>Backend = kube_backend k level\<rparr>) dec (Some (server_interceptor mk)) s of
    None \<Rightarrow> level < 4 | Some (Returned (resp, err), s') \<Rightarrow> (resp = None) \<noteq> (err = None) | Some (Panicked, s') \<Rightarrow> False"
proof -
  let ?srv = "grpc_server mk \<lparr>Backend = kube_backend k level\<rparr>"
  have panic: "mk CodeInternal m \<noteq> None" for m using status_pkg.status_nil [OF assms(2)] by simp
  have intercepted: "case server_interceptor mk name (call ?srv) req s of
      None \<Rightarrow> level < 4 | Some (Returned (resp, err), s') \<Rightarrow> (resp = None) \<noteq> (err = None) | Some (Panicked, s') \<Rightarrow> False"
    if "call \<in> {get_call, set_call, list_call}" for call name req
    using method_answers [OF assms(1,2) that, of level req s] panic
    by (auto simp: server_interceptor_def Interceptor_def split: option.splits prod.splits outcome.splits)
  have "h = ReplicaService_GetReplicas_Handler \<or> h = ReplicaService_SetReplicas_Handler \<or> h = ReplicaService_ListDeployments_Handler"
    using assms(3) by (simp add: ReplicaService_ServiceDesc_def)
  then show ?thesis using intercepted by (elim disjE) (auto simp: method_handlers split: sum.split)
qed

theorem grpc_answers_witness:
  "let run = ReplicaService_SetReplicas_Handler (grpc_server plain_status \<lparr>Backend = kube_backend ref_client 5\<rparr>)
     (\<lambda>_. Inr (SetReplicasRequest \<lparr>sq_Namespace = ''shop'', sq_Name = ''web'', sq_Replicas = Some 5, sq_ExpectedVersion = ''stale''\<rparr>))
     (Some (server_interceptor plain_status)) shop in
   \<exists>e s'. run = Some (Returned (None, Some e), s')"
proof -
  let ?run = "ReplicaService_SetReplicas_Handler (grpc_server plain_status \<lparr>Backend = kube_backend ref_client 5\<rparr>)
     (\<lambda>_. Inr (SetReplicasRequest \<lparr>sq_Namespace = ''shop'', sq_Name = ''web'', sq_Replicas = Some 5, sq_ExpectedVersion = ''stale''\<rparr>))
     (Some (server_interceptor plain_status)) shop"
  have "case ?run of Some (Returned (resp, err), _) \<Rightarrow> resp = None | _ \<Rightarrow> False" by code_simp
  moreover have "ReplicaService_SetReplicas_Handler \<in> snd ` set (Methods ReplicaService_ServiceDesc)"
    by (simp add: ReplicaService_ServiceDesc_def)
  note grpc_answers [OF ref.kube_client_axioms plain.status_pkg_axioms this, of 5
      "\<lambda>_. Inr (SetReplicasRequest \<lparr>sq_Namespace = ''shop'', sq_Name = ''web'', sq_Replicas = Some 5, sq_ExpectedVersion = ''stale''\<rparr>)" shop]
  ultimately show ?thesis by (auto simp: Let_def split: option.splits outcome.splits)
qed

end
