(* ===== verification/Go_Json.thy ===== *)
theory Go_Json
  imports Prelude
begin

text \<open>
  The streaming decoder of Go's \<^verbatim>\<open>encoding/json\<close> as \<^verbatim>\<open>internal/httpapi\<close> uses it: the byte-driven
  scanner with its stack of open containers (\<^verbatim>\<open>scanner.go\<close>), the reading of one value from a stream
  (\<^verbatim>\<open>Decoder.readValue\<close>), and \<^verbatim>\<open>http.MaxBytesReader\<close> in front of it. One state and one function per
  scanner state, with the package's names. The scanner collects the value it recognises, the texts of
  numbers and strings uninterpreted, as the package keeps them until they are stored.

  The package refuses values nested more than 10000 deep; the program reads at most 4096 bytes, so that
  limit is not reached and is left out.
\<close>

section \<open>Values and scanner states\<close>

text \<open>Numbers by their literal, strings and keys by the text between the quotes.\<close>

datatype json =
    Null
  | Bool bool
  | Num string
  | Str string
  | Arr "json list"
  | Obj "(string \<times> json) list"

text \<open>
  The stack \<^verbatim>\<open>parseState\<close>: \<open>ArrayValue\<close> with the elements before the current one, \<open>ObjectKey\<close> with the members
  before the current key, \<open>ObjectValue\<close> with also the key of the current value.
\<close>

datatype frame =
    ArrayValue "json list"
  | ObjectKey "(string \<times> json) list"
  | ObjectValue "(string \<times> json) list" string

datatype num_state = StateNeg | State1 | State0 | StateDot | StateDot0 | StateE | StateESign | StateE0

text \<open>Inside a string: ordinary, after a backslash, or with the given number of hex digits left.\<close>

datatype str_state = StateInString | StateInStringEsc | StateInStringEscU nat

datatype scan_state =
    StateBeginValue
  | StateBeginValueOrEmpty
  | StateBeginString
  | StateBeginStringOrEmpty
  | StateString str_state string
  | StateNumber num_state string
  | StateLiteral string json
  | StateEndValue json

text \<open>What the scanner reports for one byte: go on, a value that ended before this byte (\<^verbatim>\<open>scanEnd\<close>), an
  outermost array or object closed by this byte, or a syntax error.\<close>

datatype scanned =
    ScanContinue scan_state "frame list"
  | ScanEnd json
  | ScanClosed json
  | ScanError

section \<open>Bytes\<close>

definition isSpace :: "char \<Rightarrow> bool" where
  "isSpace c \<longleftrightarrow> c = CHR '' '' \<or> c = CHR 0x09 \<or> c = CHR 0x0D \<or> c = CHR 0x0A"

definition isDigit :: "char \<Rightarrow> bool" where
  "isDigit c \<longleftrightarrow> CHR ''0'' \<le> c \<and> c \<le> CHR ''9''"

definition isHex :: "char \<Rightarrow> bool" where
  "isHex c \<longleftrightarrow> isDigit c \<or> CHR ''a'' \<le> c \<and> c \<le> CHR ''f'' \<or> CHR ''A'' \<le> c \<and> c \<le> CHR ''F''"

definition nonSpace :: "string \<Rightarrow> bool" where
  "nonSpace b \<longleftrightarrow> list_ex (\<lambda>c. \<not> isSpace c) b"

section \<open>The scanner\<close>

text \<open>\<^verbatim>\<open>popParseState\<close> after a closing byte, with the value that it completes.\<close>

definition popParseState :: "json \<Rightarrow> frame list \<Rightarrow> scanned" where
  "popParseState v stk = (if stk = [] then ScanClosed v else ScanContinue (StateEndValue v) stk)"

fun stateEndValue :: "json \<Rightarrow> frame list \<Rightarrow> char \<Rightarrow> scanned" where
  "stateEndValue v [] c = ScanEnd v"
| "stateEndValue v (f # stk) c =
     (if isSpace c then ScanContinue (StateEndValue v) (f # stk)
      else case f of
          ObjectKey ms \<Rightarrow>
            (case v of
               Str k \<Rightarrow> if c = CHR '':'' then ScanContinue StateBeginValue (ObjectValue ms k # stk) else ScanError
             | _ \<Rightarrow> ScanError)
        | ObjectValue ms k \<Rightarrow>
            if c = CHR '','' then ScanContinue StateBeginString (ObjectKey (ms @ [(k, v)]) # stk)
            else if c = CHR ''}'' then popParseState (Obj (ms @ [(k, v)])) stk
            else ScanError
        | ArrayValue vs \<Rightarrow>
            if c = CHR '','' then ScanContinue StateBeginValue (ArrayValue (vs @ [v]) # stk)
            else if c = CHR '']'' then popParseState (Arr (vs @ [v])) stk
            else ScanError)"

definition stateBeginValue :: "frame list \<Rightarrow> char \<Rightarrow> scanned" where
  "stateBeginValue stk c =
     (if isSpace c then ScanContinue StateBeginValue stk
      else if c = CHR ''{'' then ScanContinue StateBeginStringOrEmpty (ObjectKey [] # stk)
      else if c = CHR ''['' then ScanContinue StateBeginValueOrEmpty (ArrayValue [] # stk)
      else if c = CHR 0x22 then ScanContinue (StateString StateInString []) stk
      else if c = CHR ''-'' then ScanContinue (StateNumber StateNeg [c]) stk
      else if c = CHR ''0'' then ScanContinue (StateNumber State0 [c]) stk
      else if c = CHR ''t'' then ScanContinue (StateLiteral ''rue'' (Bool True)) stk
      else if c = CHR ''f'' then ScanContinue (StateLiteral ''alse'' (Bool False)) stk
      else if c = CHR ''n'' then ScanContinue (StateLiteral ''ull'' Null) stk
      else if isDigit c then ScanContinue (StateNumber State1 [c]) stk
      else ScanError)"

definition stateBeginString :: "frame list \<Rightarrow> char \<Rightarrow> scanned" where
  "stateBeginString stk c =
     (if isSpace c then ScanContinue StateBeginString stk
      else if c = CHR 0x22 then ScanContinue (StateString StateInString []) stk
      else ScanError)"

text \<open>After \<^verbatim>\<open>{\<close> and \<^verbatim>\<open>[\<close>: the container may be closed at once.\<close>

definition stateBeginStringOrEmpty :: "frame list \<Rightarrow> char \<Rightarrow> scanned" where
  "stateBeginStringOrEmpty stk c =
     (if isSpace c then ScanContinue StateBeginStringOrEmpty stk
      else if c = CHR ''}'' then popParseState (Obj []) (tl stk)
      else stateBeginString stk c)"

definition stateBeginValueOrEmpty :: "frame list \<Rightarrow> char \<Rightarrow> scanned" where
  "stateBeginValueOrEmpty stk c =
     (if isSpace c then ScanContinue StateBeginValueOrEmpty stk
      else if c = CHR '']'' then popParseState (Arr []) (tl stk)
      else stateBeginValue stk c)"

text \<open>Inside a string literal: escapes are checked, not yet interpreted; control characters are refused.\<close>

fun stateString :: "str_state \<Rightarrow> string \<Rightarrow> frame list \<Rightarrow> char \<Rightarrow> scanned" where
  "stateString StateInString raw stk c =
     (if c = CHR 0x22 then ScanContinue (StateEndValue (Str raw)) stk
      else if c = CHR 0x5C then ScanContinue (StateString StateInStringEsc (raw @ [c])) stk
      else if c < CHR '' '' then ScanError
      else ScanContinue (StateString StateInString (raw @ [c])) stk)"
| "stateString StateInStringEsc raw stk c =
     (if c \<in> set (''bfnrt/'' @ [CHR 0x5C, CHR 0x22]) then ScanContinue (StateString StateInString (raw @ [c])) stk
      else if c = CHR ''u'' then ScanContinue (StateString (StateInStringEscU 3) (raw @ [c])) stk
      else ScanError)"
| "stateString (StateInStringEscU n) raw stk c =
     (if isHex c then ScanContinue (StateString (case n of 0 \<Rightarrow> StateInString | Suc m \<Rightarrow> StateInStringEscU m) (raw @ [c])) stk
      else ScanError)"

text \<open>The next state of a number, or \<^const>\<open>None\<close> where the byte is not part of it.\<close>

fun num_step :: "num_state \<Rightarrow> char \<Rightarrow> num_state option" where
  "num_step StateNeg c = (if c = CHR ''0'' then Some State0 else if isDigit c then Some State1 else None)"
| "num_step State1 c = (if isDigit c then Some State1
     else if c = CHR ''.'' then Some StateDot else if c = CHR ''e'' \<or> c = CHR ''E'' then Some StateE else None)"
| "num_step State0 c = (if c = CHR ''.'' then Some StateDot else if c = CHR ''e'' \<or> c = CHR ''E'' then Some StateE else None)"
| "num_step StateDot c = (if isDigit c then Some StateDot0 else None)"
| "num_step StateDot0 c = (if isDigit c then Some StateDot0 else if c = CHR ''e'' \<or> c = CHR ''E'' then Some StateE else None)"
| "num_step StateE c = (if c = CHR ''+'' \<or> c = CHR ''-'' then Some StateESign else if isDigit c then Some StateE0 else None)"
| "num_step StateESign c = (if isDigit c then Some StateE0 else None)"
| "num_step StateE0 c = (if isDigit c then Some StateE0 else None)"

text \<open>The states in which a number may end.\<close>

fun num_final :: "num_state \<Rightarrow> bool" where
  "num_final State1 = True"
| "num_final State0 = True"
| "num_final StateDot0 = True"
| "num_final StateE0 = True"
| "num_final _ = False"

definition stateNumber :: "num_state \<Rightarrow> string \<Rightarrow> frame list \<Rightarrow> char \<Rightarrow> scanned" where
  "stateNumber ns raw stk c = (case num_step ns c of
       Some ns' \<Rightarrow> ScanContinue (StateNumber ns' (raw @ [c])) stk
     | None \<Rightarrow> if num_final ns then stateEndValue (Num raw) stk c else ScanError)"

text \<open>\<^verbatim>\<open>true\<close>, \<^verbatim>\<open>false\<close>, \<^verbatim>\<open>null\<close>, with the bytes still expected.\<close>

fun stateLiteral :: "string \<Rightarrow> json \<Rightarrow> frame list \<Rightarrow> char \<Rightarrow> scanned" where
  "stateLiteral [] v stk c = stateEndValue v stk c"
| "stateLiteral (x # xs) v stk c =
     (if c = x then ScanContinue (if xs = [] then StateEndValue v else StateLiteral xs v) stk else ScanError)"

fun scan_step :: "scan_state \<Rightarrow> frame list \<Rightarrow> char \<Rightarrow> scanned" where
  "scan_step StateBeginValue stk c = stateBeginValue stk c"
| "scan_step StateBeginValueOrEmpty stk c = stateBeginValueOrEmpty stk c"
| "scan_step StateBeginString stk c = stateBeginString stk c"
| "scan_step StateBeginStringOrEmpty stk c = stateBeginStringOrEmpty stk c"
| "scan_step (StateString ss raw) stk c = stateString ss raw stk c"
| "scan_step (StateNumber ns raw) stk c = stateNumber ns raw stk c"
| "scan_step (StateLiteral xs v) stk c = stateLiteral xs v stk c"
| "scan_step (StateEndValue v) stk c = stateEndValue v stk c"

section \<open>Streams\<close>

text \<open>The error after the last byte of a stream: its end, the limit of \<^verbatim>\<open>MaxBytesReader\<close>, or a failed read.\<close>

datatype read_error = EOF | MaxBytesError | ReadFailed

record stream =
  st_bytes :: string
  st_end :: read_error

text \<open>\<^verbatim>\<open>http.MaxBytesReader\<close>: at most \<open>limit\<close> bytes; a longer body ends in its error after them.\<close>

definition MaxBytesReader :: "nat \<Rightarrow> stream \<Rightarrow> stream" where
  "MaxBytesReader limit body = (if length (st_bytes body) > limit
     then \<lparr>st_bytes = take limit (st_bytes body), st_end = MaxBytesError\<rparr> else body)"

datatype decode_error =
    Read read_error
  | UnexpectedEOF
  | SyntaxError
  | UnmarshalError

text \<open>
  \<^verbatim>\<open>readValue\<close>: the value and the bytes that follow it. \<open>buf\<close> are the bytes of this call already scanned.
  At the end of the stream a space is invented, which ends a number or literal; without a value the end
  is \<^verbatim>\<open>io.EOF\<close> only if the stream held nothing but space. How the bytes arrive in pieces makes no difference:
  the scanner keeps its state between reads.
\<close>

fun readValue :: "read_error \<Rightarrow> string \<Rightarrow> scan_state \<Rightarrow> frame list \<Rightarrow> string \<Rightarrow> decode_error + json \<times> string" where
  "readValue e buf st stk [] =
     (if e = EOF then
        (case scan_step st stk (CHR '' '') of
           ScanEnd v \<Rightarrow> Inr (v, [])
         | _ \<Rightarrow> if nonSpace buf then Inl UnexpectedEOF else Inl (Read EOF))
      else Inl (Read e))"
| "readValue e buf st stk (c # cs) =
     (case scan_step st stk c of
        ScanContinue st' stk' \<Rightarrow> readValue e (buf @ [c]) st' stk' cs
      | ScanEnd v \<Rightarrow> Inr (v, c # cs)
      | ScanClosed v \<Rightarrow> Inr (v, cs)
      | ScanError \<Rightarrow> Inl SyntaxError)"

text \<open>The scanning part of \<^verbatim>\<open>Decode\<close>: a value, and the stream left for the next call.\<close>

definition next_value :: "stream \<Rightarrow> decode_error + json \<times> stream" where
  "next_value s = map_sum id (\<lambda>(v, rest). (v, s\<lparr>st_bytes := rest\<rparr>)) (readValue (st_end s) [] StateBeginValue [] (st_bytes s))"

end
