(* ===== verification/Json_Grammar.thy ===== *)
theory Json_Grammar
  imports Go_Json
begin

text \<open>
  The grammar of JSON texts (RFC 8259), independent of the scanner, and the proof that the scanner
  implements it: a value is read exactly where the grammar has one, and it is that value. One
  direction is an invariant of the scanner over the text read so far, the other an induction over
  derivations.
\<close>

section \<open>The grammar\<close>

abbreviation spaces :: "string \<Rightarrow> bool" where
  "spaces w \<equiv> list_all isSpace w"

abbreviation digits :: "string \<Rightarrow> bool" where
  "digits ds \<equiv> list_all isDigit ds"

definition int_text :: "string \<Rightarrow> bool" where
  "int_text s \<longleftrightarrow> s = ''0'' \<or> (\<exists>d ds. s = d # ds \<and> isDigit d \<and> d \<noteq> CHR ''0'' \<and> digits ds)"

definition frac_text :: "string \<Rightarrow> bool" where
  "frac_text s \<longleftrightarrow> s = [] \<or> (\<exists>ds. s = CHR ''.'' # ds \<and> ds \<noteq> [] \<and> digits ds)"

definition exp_text :: "string \<Rightarrow> bool" where
  "exp_text s \<longleftrightarrow> s = [] \<or> (\<exists>e sg ds. s = e # sg @ ds \<and> (e = CHR ''e'' \<or> e = CHR ''E'') \<and>
     (sg = [] \<or> sg = ''+'' \<or> sg = ''-'') \<and> ds \<noteq> [] \<and> digits ds)"

definition mantissa :: "string \<Rightarrow> bool" where
  "mantissa s \<longleftrightarrow> (\<exists>i. int_text i \<and> (s = i \<or> s = CHR ''-'' # i))"

definition number_text :: "string \<Rightarrow> bool" where
  "number_text s \<longleftrightarrow> (\<exists>m f e. s = m @ f @ e \<and> mantissa m \<and> frac_text f \<and> exp_text e)"

inductive string_text :: "string \<Rightarrow> bool" where
  empty: "string_text []"
| plain: "string_text s \<Longrightarrow> c \<noteq> CHR 0x22 \<Longrightarrow> c \<noteq> CHR 0x5C \<Longrightarrow> CHR '' '' \<le> c \<Longrightarrow> string_text (s @ [c])"
| escape: "string_text s \<Longrightarrow> c \<in> set (''bfnrt/'' @ [CHR 0x5C, CHR 0x22]) \<Longrightarrow> string_text (s @ [CHR 0x5C, c])"
| unicode: "string_text s \<Longrightarrow> length h = 4 \<Longrightarrow> list_all isHex h \<Longrightarrow> string_text (s @ [CHR 0x5C, CHR ''u''] @ h)"

abbreviation quoted :: "string \<Rightarrow> string" where
  "quoted k \<equiv> CHR 0x22 # k @ [CHR 0x22]"

inductive value_text :: "json \<Rightarrow> string \<Rightarrow> bool"
  and elements :: "json list \<Rightarrow> string \<Rightarrow> bool"
  and members :: "(string \<times> json) list \<Rightarrow> string \<Rightarrow> bool" where
  null: "value_text Null ''null''"
| true: "value_text (Bool True) ''true''"
| false: "value_text (Bool False) ''false''"
| number: "number_text n \<Longrightarrow> value_text (Num n) n"
| str: "string_text s \<Longrightarrow> value_text (Str s) (quoted s)"
| empty_array: "spaces w \<Longrightarrow> value_text (Arr []) (CHR ''['' # w @ '']'')"
| array: "elements vs s \<Longrightarrow> value_text (Arr vs) (CHR ''['' # s @ '']'')"
| empty_object: "spaces w \<Longrightarrow> value_text (Obj []) (CHR ''{'' # w @ ''}'')"
| object: "members ms s \<Longrightarrow> value_text (Obj ms) (CHR ''{'' # s @ ''}'')"
| one_element: "spaces w \<Longrightarrow> value_text v x \<Longrightarrow> spaces w' \<Longrightarrow> elements [v] (w @ x @ w')"
| more_elements: "elements vs s \<Longrightarrow> spaces w \<Longrightarrow> value_text v x \<Longrightarrow> spaces w' \<Longrightarrow>
    elements (vs @ [v]) (s @ CHR '','' # w @ x @ w')"
| one_member: "spaces w \<Longrightarrow> string_text k \<Longrightarrow> spaces w1 \<Longrightarrow> spaces w2 \<Longrightarrow> value_text v x \<Longrightarrow> spaces w' \<Longrightarrow>
    members [(k, v)] (w @ quoted k @ w1 @ CHR '':'' # w2 @ x @ w')"
| more_members: "members ms s \<Longrightarrow> spaces w \<Longrightarrow> string_text k \<Longrightarrow> spaces w1 \<Longrightarrow> spaces w2 \<Longrightarrow> value_text v x \<Longrightarrow> spaces w' \<Longrightarrow>
    members (ms @ [(k, v)]) (s @ CHR '','' # w @ quoted k @ w1 @ CHR '':'' # w2 @ x @ w')"

section \<open>The scanner reads only what the grammar derives\<close>

text \<open>The texts at which a number state is reached.\<close>

fun partial_number :: "num_state \<Rightarrow> string \<Rightarrow> bool" where
  "partial_number StateNeg s = (s = ''-'')"
| "partial_number State0 s = (s = ''0'' \<or> s = ''-0'')"
| "partial_number State1 s = (\<exists>d ds. isDigit d \<and> d \<noteq> CHR ''0'' \<and> digits ds \<and> (s = d # ds \<or> s = CHR ''-'' # d # ds))"
| "partial_number StateDot s = (\<exists>m. s = m @ ''.'' \<and> mantissa m)"
| "partial_number StateDot0 s = (\<exists>m ds. s = m @ CHR ''.'' # ds \<and> mantissa m \<and> ds \<noteq> [] \<and> digits ds)"
| "partial_number StateE s = (\<exists>m f e. s = m @ f @ [e] \<and> mantissa m \<and> frac_text f \<and> (e = CHR ''e'' \<or> e = CHR ''E''))"
| "partial_number StateESign s = (\<exists>m f e g. s = m @ f @ [e, g] \<and> mantissa m \<and> frac_text f \<and> (e = CHR ''e'' \<or> e = CHR ''E'') \<and>
     (g = CHR ''+'' \<or> g = CHR ''-''))"
| "partial_number StateE0 s = (\<exists>m f e g ds. s = m @ f @ e # g @ ds \<and> mantissa m \<and> frac_text f \<and> (e = CHR ''e'' \<or> e = CHR ''E'') \<and>
     (g = [] \<or> g = ''+'' \<or> g = ''-'') \<and> ds \<noteq> [] \<and> digits ds)"

lemma partial_mantissa: "partial_number State0 s \<or> partial_number State1 s \<Longrightarrow> mantissa s"
  by (auto simp: mantissa_def int_text_def)

lemma number_textI: "mantissa m \<Longrightarrow> frac_text f \<Longrightarrow> exp_text e \<Longrightarrow> number_text (m @ f @ e)"
  unfolding number_text_def by blast

lemma frac_exp_empty [simp]: "frac_text []" "exp_text []"
  by (simp_all add: frac_text_def exp_text_def)

lemma partial_number_final:
  assumes "partial_number ns s" and "num_final ns"
  shows "number_text s"
proof (cases ns)
  case StateDot0
  with assms obtain m ds where "s = m @ CHR ''.'' # ds" "mantissa m" "frac_text (CHR ''.'' # ds)"
    by (auto simp: frac_text_def)
  with number_textI [of m "CHR ''.'' # ds" "[]"] show ?thesis by simp
next
  case StateE0
  from assms(1) [unfolded this partial_number.simps] obtain m f e g ds where s: "s = m @ f @ e # g @ ds" "mantissa m" "frac_text f"
    "e = CHR ''e'' \<or> e = CHR ''E''" "g = [] \<or> g = ''+'' \<or> g = ''-''" "ds \<noteq> []" "digits ds" by blast
  then have "exp_text (e # g @ ds)" unfolding exp_text_def by blast
  with number_textI [of m f "e # g @ ds"] s(1,2,3) show ?thesis by simp
qed (use assms partial_mantissa [of s] number_textI [of s "[]" "[]"] in auto)

lemma exponentI:
  assumes "mantissa m" and "frac_text f" and "e = CHR ''e'' \<or> e = CHR ''E''" and "g = [] \<or> g = ''+'' \<or> g = ''-''"
    and "ds \<noteq> []" and "digits ds"
  shows "partial_number StateE0 (m @ f @ e # g @ ds)"
  unfolding partial_number.simps
  by (rule exI [of _ m], rule exI [of _ f], rule exI [of _ e], rule exI [of _ g], rule exI [of _ ds]) (use assms in simp)

lemma partial_number_step:
  assumes "partial_number ns s" and "num_step ns c = Some ns'"
  shows "partial_number ns' (s @ [c])"
proof (cases ns)
  case StateNeg
  with assms show ?thesis by (auto split: if_splits intro!: exI [of _ c] exI [of _ "[]"])
next
  case State1
  from assms(1) [unfolded this partial_number.simps] obtain d ds where s: "isDigit d" "d \<noteq> CHR ''0''" "digits ds"
    "s = d # ds \<or> s = CHR ''-'' # d # ds" by blast
  have "mantissa s" using assms(1) State1 by (intro partial_mantissa) simp
  moreover have "isDigit c \<Longrightarrow> partial_number State1 (s @ [c])"
    unfolding partial_number.simps using s by (intro exI [of _ d] exI [of _ "ds @ [c]"]) auto
  ultimately show ?thesis using assms(2) State1
    by (auto split: if_splits simp del: partial_number.simps(3) intro: exI [of _ "[]"] simp: frac_text_def)
next
  case State0
  with assms have "mantissa s" by (intro partial_mantissa) simp
  with State0 assms show ?thesis by (auto split: if_splits simp: frac_text_def)
next
  case StateDot
  from assms(1) [unfolded this partial_number.simps] obtain m where "s = m @ ''.''" "mantissa m" by blast
  moreover have "isDigit c" "ns' = StateDot0" using StateDot assms(2) by (auto split: if_splits)
  moreover have "m @ ''.'' @ [c] = m @ CHR ''.'' # [c]" by simp
  ultimately show ?thesis unfolding partial_number.simps by fastforce
next
  case StateDot0
  with assms obtain m ds where m: "s = m @ CHR ''.'' # ds" "mantissa m" "ds \<noteq> []" "digits ds" by auto
  then have "frac_text (CHR ''.'' # ds)" by (simp add: frac_text_def)
  moreover have "partial_number StateDot0 (s @ [c])" if "isDigit c"
    unfolding partial_number.simps by (rule exI [of _ m], rule exI [of _ "ds @ [c]"]) (use m that in simp)
  ultimately show ?thesis using m StateDot0 assms(2) by (auto split: if_splits intro: exI [of _ "CHR ''.'' # ds"])
next
  case StateE
  with assms show ?thesis by (fastforce split: if_splits)
next
  case StateESign
  from assms(1) [unfolded this partial_number.simps] obtain m f e g where m: "s = m @ f @ [e, g]" "mantissa m" "frac_text f"
    "e = CHR ''e'' \<or> e = CHR ''E''" "g = CHR ''+'' \<or> g = CHR ''-''" by blast
  have "isDigit c" "ns' = StateE0" using StateESign assms(2) by (auto split: if_splits)
  with exponentI [of m f e "[g]" "[c]"] m show ?thesis by simp
next
  case StateE0
  from assms(1) [unfolded this partial_number.simps] obtain m f e g ds where m: "s = m @ f @ e # g @ ds" "mantissa m" "frac_text f"
    "e = CHR ''e'' \<or> e = CHR ''E''" "g = [] \<or> g = ''+'' \<or> g = ''-''" "ds \<noteq> []" "digits ds" by blast
  have "isDigit c" "ns' = StateE0" using StateE0 assms(2) by (auto split: if_splits)
  with exponentI [of m f e g "ds @ [c]"] m show ?thesis by simp
qed

text \<open>The texts at which a string state is reached, without the opening quote.\<close>

fun partial_string :: "str_state \<Rightarrow> string \<Rightarrow> bool" where
  "partial_string StateInString s = string_text s"
| "partial_string StateInStringEsc s = (\<exists>t. s = t @ [CHR 0x5C] \<and> string_text t)"
| "partial_string (StateInStringEscU n) s =
     (\<exists>t h. s = t @ [CHR 0x5C, CHR ''u''] @ h \<and> string_text t \<and> length h + n = 3 \<and> list_all isHex h)"

lemma string_text_unicode:
  assumes "string_text t" and "length h = 3" and "list_all isHex h" and "isHex c"
  shows "string_text (t @ CHR 0x5C # CHR ''u'' # h @ [c])"
  using string_text.unicode [of t "h @ [c]"] assms by simp

lemma partial_string_step:
  assumes "partial_string ss raw" and "stateString ss raw stk c = ScanContinue st stk'"
  shows "stk' = stk \<and> (st = StateEndValue (Str raw) \<and> string_text raw \<and> c = CHR 0x22 \<or>
    (\<exists>ss'. st = StateString ss' (raw @ [c]) \<and> partial_string ss' (raw @ [c])))"
proof (cases ss)
  case StateInString
  with assms show ?thesis by (auto split: if_splits intro: string_text.plain simp: not_less)
next
  case StateInStringEsc
  with assms obtain t where t: "raw = t @ [CHR 0x5C]" "string_text t" by auto
  with string_text.escape [OF t(2), of c] StateInStringEsc assms(2) show ?thesis by (auto split: if_splits)
next
  case (StateInStringEscU n)
  with assms obtain t h where t: "raw = t @ [CHR 0x5C, CHR ''u''] @ h" "string_text t" "length h + n = 3" "list_all isHex h" "isHex c"
    by (auto split: if_splits)
  show ?thesis
  proof (cases n)
    case 0
    with t StateInStringEscU assms(2) show ?thesis by (auto intro: string_text_unicode)
  next
    case (Suc m)
    with t StateInStringEscU assms(2) show ?thesis
      by (auto intro!: exI [of _ t] exI [of _ "h @ [c]"])
  qed
qed

text \<open>
  The text before the current position, by the open containers: \<open>before_value\<close> where a value is due,
  \<open>before_key\<close> where a key is due.
\<close>

inductive before_value :: "frame list \<Rightarrow> string \<Rightarrow> bool"
  and before_key :: "(string \<times> json) list \<Rightarrow> frame list \<Rightarrow> string \<Rightarrow> bool" where
  top: "spaces w \<Longrightarrow> before_value [] w"
| array_first: "before_value stk t \<Longrightarrow> spaces w \<Longrightarrow> before_value (ArrayValue [] # stk) (t @ CHR ''['' # w)"
| array_next: "before_value stk t \<Longrightarrow> elements vs s \<Longrightarrow> spaces w \<Longrightarrow>
    before_value (ArrayValue vs # stk) (t @ CHR ''['' # s @ CHR '','' # w)"
| member_value: "before_key ms stk t \<Longrightarrow> string_text k \<Longrightarrow> spaces w \<Longrightarrow> spaces w' \<Longrightarrow>
    before_value (ObjectValue ms k # stk) (t @ quoted k @ w @ CHR '':'' # w')"
| key_first: "before_value stk t \<Longrightarrow> spaces w \<Longrightarrow> before_key [] stk (t @ CHR ''{'' # w)"
| key_next: "before_value stk t \<Longrightarrow> members ms s \<Longrightarrow> spaces w \<Longrightarrow> before_key ms stk (t @ CHR ''{'' # s @ CHR '','' # w)"

inductive_cases before_top [elim!]: "before_value [] s"
inductive_cases before_array: "before_value (ArrayValue vs # stk) s"
inductive_cases before_member: "before_value (ObjectValue ms k # stk) s"
inductive_cases before_object_key [elim!]: "before_value (ObjectKey ms # stk) s"
inductive_cases before_keyE: "before_key ms stk s"

text \<open>Space may be read anywhere before a value or key.\<close>

lemma before_value_space:
  assumes "before_value stk s" and "isSpace c"
  shows "before_value stk (s @ [c])"
  using assms
proof (cases stk s rule: before_value.cases)
  case (array_first stk' t w)
  with assms before_value_before_key.array_first [of stk' t "w @ [c]"] show ?thesis by simp
next
  case (array_next stk' t vs u w)
  with assms before_value_before_key.array_next [of stk' t vs u "w @ [c]"] show ?thesis by simp
next
  case (member_value ms stk' t k w w')
  with assms before_value_before_key.member_value [of ms stk' t k w "w' @ [c]"] show ?thesis by simp
qed (auto intro: before_value_before_key.top)

lemma before_key_space:
  assumes "before_key ms stk s" and "isSpace c"
  shows "before_key ms stk (s @ [c])"
  using assms
proof (cases ms stk s rule: before_key.cases)
  case (key_first t w)
  with assms before_value_before_key.key_first [of stk t "w @ [c]"] show ?thesis by simp
next
  case (key_next t u w)
  with assms before_value_before_key.key_next [of stk t ms u "w @ [c]"] show ?thesis by simp
qed

text \<open>Where a string may start: at a key or at a value.\<close>

fun before_string :: "frame list \<Rightarrow> string \<Rightarrow> bool" where
  "before_string (ObjectKey ms # stk) s = before_key ms stk s"
| "before_string stk s = before_value stk s"

lemma before_string_value: "before_value stk s \<Longrightarrow> before_string stk s"
  by (cases "(stk, s)" rule: before_string.cases) auto

text \<open>The text read when the scanner is in a state with a stack.\<close>

fun scan_inv :: "scan_state \<Rightarrow> frame list \<Rightarrow> string \<Rightarrow> bool" where
  "scan_inv StateBeginValue stk s = before_value stk s"
| "scan_inv StateBeginValueOrEmpty stk s =
     (\<exists>stk' t w. stk = ArrayValue [] # stk' \<and> before_value stk' t \<and> spaces w \<and> s = t @ CHR ''['' # w)"
| "scan_inv StateBeginString stk s = (\<exists>ms stk'. stk = ObjectKey ms # stk' \<and> before_key ms stk' s)"
| "scan_inv StateBeginStringOrEmpty stk s =
     (\<exists>stk' t w. stk = ObjectKey [] # stk' \<and> before_value stk' t \<and> spaces w \<and> s = t @ CHR ''{'' # w)"
| "scan_inv (StateString ss raw) stk s = (\<exists>t. before_string stk t \<and> s = t @ CHR 0x22 # raw \<and> partial_string ss raw)"
| "scan_inv (StateNumber ns raw) stk s = (\<exists>t. before_value stk t \<and> s = t @ raw \<and> partial_number ns raw)"
| "scan_inv (StateLiteral xs v) stk s = (\<exists>t x. before_value stk t \<and> s = t @ x \<and> value_text v (x @ xs))"
| "scan_inv (StateEndValue v) stk s =
     (\<exists>t x w. before_string stk t \<and> s = t @ x @ w \<and> value_text v x \<and> spaces w \<and> (stk = [] \<longrightarrow> w = []) \<and>
        (case stk of ObjectKey ms # _ \<Rightarrow> \<exists>k. v = Str k | _ \<Rightarrow> True))"

fun scanned_inv :: "scanned \<Rightarrow> string \<Rightarrow> char \<Rightarrow> bool" where
  "scanned_inv (ScanContinue st stk) s c = scan_inv st stk (s @ [c])"
| "scanned_inv (ScanEnd v) s c = (\<exists>w x. s = w @ x \<and> spaces w \<and> value_text v x)"
| "scanned_inv (ScanClosed v) s c = (\<exists>w x. s @ [c] = w @ x \<and> spaces w \<and> value_text v x)"
| "scanned_inv ScanError s c = True"

lemma end_value_invI:
  assumes "before_string stk t" and "value_text v x" and "spaces w" and "stk = [] \<longrightarrow> w = []"
    and "\<And>ms stk'. stk = ObjectKey ms # stk' \<Longrightarrow> \<exists>k. v = Str k" and "s = t @ x @ w"
  shows "scan_inv (StateEndValue v) stk s"
  using assms unfolding scan_inv.simps
  by (intro exI [where x = t] exI [where x = x] exI [where x = w]) (auto split: list.split frame.split)

lemma pop_inv:
  assumes "before_value stk t" and "value_text v x" and "s @ [c] = t @ x"
  shows "scanned_inv (popParseState v stk) s c"
proof (cases stk)
  case Nil
  with assms show ?thesis by (auto simp: popParseState_def)
next
  case (Cons f stk')
  have "scan_inv (StateEndValue v) stk (s @ [c])"
    by (rule end_value_invI [OF before_string_value [OF assms(1)] assms(2), of "[]"]) (use assms in auto)
  with Cons show ?thesis by (simp add: popParseState_def)
qed

text \<open>A complete value in an array or as a member.\<close>

lemma array_element:
  assumes "before_value (ArrayValue vs # stk) t" and "value_text v x" and "spaces w"
  obtains t' s where "before_value stk t'" and "t @ x @ w = t' @ CHR ''['' # s" and "elements (vs @ [v]) s"
  using assms(1)
proof (rule before_array)
  fix t0 w0
  assume "vs = []" "t = t0 @ CHR ''['' # w0" "before_value stk t0" "spaces w0"
  with that [of t0 "w0 @ x @ w"] value_text_elements_members.one_element [of w0 v x w] assms show thesis by simp
next
  fix t0 u w0
  assume "t = t0 @ CHR ''['' # u @ CHR '','' # w0" "before_value stk t0" "elements vs u" "spaces w0"
  with that [of t0 "u @ CHR '','' # w0 @ x @ w"] value_text_elements_members.more_elements [of vs u w0 v x w] assms
  show thesis by simp
qed

lemma object_member:
  assumes "before_value (ObjectValue ms k # stk) t" and "value_text v x" and "spaces w"
  obtains t' s where "before_value stk t'" and "t @ x @ w = t' @ CHR ''{'' # s" and "members (ms @ [(k, v)]) s"
proof -
  from assms(1) obtain t0 w1 w2 where t: "t = t0 @ quoted k @ w1 @ CHR '':'' # w2" "before_key ms stk t0" "string_text k"
    "spaces w1" "spaces w2" by (rule before_member) simp
  from t(2) show thesis
  proof (rule before_keyE)
    fix t' w0
    assume "ms = []" "t0 = t' @ CHR ''{'' # w0" "before_value stk t'" "spaces w0"
    with that [of t' "w0 @ quoted k @ w1 @ CHR '':'' # w2 @ x @ w"] t assms
      value_text_elements_members.one_member [of w0 k w1 w2 v x w] show thesis by simp
  next
    fix t' u w0
    assume "t0 = t' @ CHR ''{'' # u @ CHR '','' # w0" "before_value stk t'" "members ms u" "spaces w0"
    with that [of t' "u @ CHR '','' # w0 @ quoted k @ w1 @ CHR '':'' # w2 @ x @ w"] t assms
      value_text_elements_members.more_members [of ms u w0 k w1 w2 v x w] show thesis by simp
  qed
qed

lemma end_value_inv:
  assumes "scan_inv (StateEndValue v) stk s"
  shows "scanned_inv (stateEndValue v stk c) s c"
proof (cases stk)
  case Nil
  with assms show ?thesis by auto
next
  case (Cons f stk')
  with assms obtain t x w where t: "before_string stk t" "s = t @ x @ w" "value_text v x" "spaces w"
    and key: "case stk of ObjectKey ms # _ \<Rightarrow> \<exists>k. v = Str k | _ \<Rightarrow> True" by auto
  show ?thesis
  proof (cases "isSpace c")
    case True
    have "scan_inv (StateEndValue v) stk (s @ [c])"
      by (rule end_value_invI [OF t(1,3), of "w @ [c]"]) (use t key Cons True in auto)
    with True Cons show ?thesis by simp
  next
    case False
    show ?thesis
    proof (cases f)
      case (ArrayValue vs)
      with t Cons have "before_value (ArrayValue vs # stk') t" by simp
      from array_element [OF this t(3,4)] obtain t' u where u: "before_value stk' t'" "t @ x @ w = t' @ CHR ''['' # u"
        "elements (vs @ [v]) u" by blast
      from u before_value_before_key.array_next [OF u(1,3), of "[]"] Cons ArrayValue False t(2) show ?thesis
        by (auto intro: pop_inv [OF u(1) value_text_elements_members.array])
    next
      case (ObjectValue ms k)
      with t Cons have "before_value (ObjectValue ms k # stk') t" by simp
      from object_member [OF this t(3,4)] obtain t' u where u: "before_value stk' t'" "t @ x @ w = t' @ CHR ''{'' # u"
        "members (ms @ [(k, v)]) u" by blast
      from u before_value_before_key.key_next [OF u(1,3), of "[]"] Cons ObjectValue False t(2) show ?thesis
        by (auto intro: pop_inv [OF u(1) value_text_elements_members.object])
    next
      case (ObjectKey ms)
      with key Cons obtain k where k: "v = Str k" by auto
      with t(3) have "x = quoted k" "string_text k" by (auto elim: value_text.cases)
      with t k Cons ObjectKey False before_value_before_key.member_value [of ms stk' t k w "[]"] show ?thesis by auto
    qed
  qed
qed

lemma first_byte_inv:
  assumes "before_value stk s"
  shows "value_text v (c # xs) \<Longrightarrow> scan_inv (StateLiteral xs v) stk (s @ [c])"
    and "partial_number ns [c] \<Longrightarrow> scan_inv (StateNumber ns [c]) stk (s @ [c])"
    and "scan_inv (StateString StateInString []) stk (s @ [CHR 0x22])"
    and "scan_inv StateBeginStringOrEmpty (ObjectKey [] # stk) (s @ ''{'')"
    and "scan_inv StateBeginValueOrEmpty (ArrayValue [] # stk) (s @ ''['')"
  using assms before_string_value [OF assms] by (force simp: string_text.empty)+

lemma begin_value_inv:
  assumes "before_value stk s"
  shows "scanned_inv (stateBeginValue stk c) s c"
proof -
  have "partial_number State1 [c]" if "isDigit c" "c \<noteq> CHR ''0''"
    unfolding partial_number.simps by (rule exI [of _ c], rule exI [of _ "[]"]) (use that in simp)
  moreover have "partial_number StateNeg ''-''" "partial_number State0 ''0''" by simp_all
  moreover have "scan_inv StateBeginValue stk (s @ [c])" if "isSpace c" using that assms by (simp add: before_value_space)
  ultimately show ?thesis
    using first_byte_inv [OF assms] value_text_elements_members.true value_text_elements_members.false value_text_elements_members.null
    by (simp add: stateBeginValue_def del: scan_inv.simps partial_number.simps)
qed

lemma begin_string_inv:
  assumes "before_key ms stk s"
  shows "scanned_inv (stateBeginString (ObjectKey ms # stk) c) s c"
  using assms before_key_space [OF assms] by (auto simp: stateBeginString_def string_text.empty)

lemma begin_or_empty_inv:
  assumes "before_value stk t" and "spaces w" and "s = t @ b # w"
  shows "b = CHR ''['' \<Longrightarrow> scanned_inv (stateBeginValueOrEmpty (ArrayValue [] # stk) c) s c"
    and "b = CHR ''{'' \<Longrightarrow> scanned_inv (stateBeginStringOrEmpty (ObjectKey [] # stk) c) s c"
proof -
  assume "b = CHR ''[''"
  moreover have "isSpace c \<Longrightarrow> scan_inv StateBeginValueOrEmpty (ArrayValue [] # stk) (t @ CHR ''['' # w @ [c])"
    using assms by fastforce
  ultimately show "scanned_inv (stateBeginValueOrEmpty (ArrayValue [] # stk) c) s c"
    using assms begin_value_inv [OF before_value_before_key.array_first [OF assms(1,2)], of c]
      pop_inv [OF assms(1) value_text_elements_members.empty_array [OF assms(2)], of s c]
    by (auto simp: stateBeginValueOrEmpty_def)
next
  assume "b = CHR ''{''"
  moreover have "isSpace c \<Longrightarrow> scan_inv StateBeginStringOrEmpty (ObjectKey [] # stk) (t @ CHR ''{'' # w @ [c])"
    using assms by fastforce
  ultimately show "scanned_inv (stateBeginStringOrEmpty (ObjectKey [] # stk) c) s c"
    using assms begin_string_inv [OF before_value_before_key.key_first [OF assms(1,2)], of c]
      pop_inv [OF assms(1) value_text_elements_members.empty_object [OF assms(2)], of s c]
    by (auto simp: stateBeginStringOrEmpty_def)
qed

lemma before_value_no_key: "before_value stk s \<Longrightarrow> stk = ObjectKey ms # stk' \<Longrightarrow> P"
  by auto

lemma value_end_inv:
  assumes "before_value stk t" and "value_text v x" and "s = t @ x"
  shows "scan_inv (StateEndValue v) stk s"
  by (rule end_value_invI [OF before_string_value [OF assms(1)] assms(2), of "[]"])
     (use assms(1,3) in \<open>auto intro: before_value_no_key\<close>)

lemma scan_step_inv:
  assumes "scan_inv st stk s"
  shows "scanned_inv (scan_step st stk c) s c"
proof (cases st)
  case StateBeginValueOrEmpty
  with assms show ?thesis by (auto intro: begin_or_empty_inv)
next
  case StateBeginStringOrEmpty
  with assms show ?thesis by (auto intro: begin_or_empty_inv)
next
  case (StateString ss raw)
  with assms obtain t where t: "before_string stk t" "s = t @ CHR 0x22 # raw" "partial_string ss raw" by auto
  show ?thesis
  proof (cases "stateString ss raw stk c")
    case (ScanContinue st' stk')
    from partial_string_step [OF t(3) this]
    consider "stk' = stk" "st' = StateEndValue (Str raw)" "string_text raw" "c = CHR 0x22"
      | ss' where "stk' = stk" "st' = StateString ss' (raw @ [c])" "partial_string ss' (raw @ [c])" by blast
    then show ?thesis
    proof cases
      case 1
      with end_value_invI [OF t(1) value_text_elements_members.str [OF 1(3)], of "[]"] t StateString ScanContinue show ?thesis by simp
    qed (use t StateString ScanContinue in simp)
  qed (use StateString in \<open>cases ss; simp split: if_splits\<close>)+
next
  case (StateNumber ns raw)
  with assms obtain t where t: "before_value stk t" "s = t @ raw" "partial_number ns raw" by auto
  show ?thesis
  proof (cases "num_step ns c")
    case (Some ns')
    with partial_number_step [OF t(3) Some] t(1,2) StateNumber show ?thesis by (auto simp: stateNumber_def)
  next
    case None
    have "scan_inv (StateEndValue (Num raw)) stk s" if "num_final ns"
      by (rule value_end_inv [OF t(1) value_text_elements_members.number [OF partial_number_final [OF t(3) that]] t(2)])
    with None StateNumber end_value_inv show ?thesis by (auto simp: stateNumber_def simp del: scan_inv.simps)
  qed
next
  case (StateLiteral xs v)
  with assms obtain t x where t: "before_value stk t" "s = t @ x" "value_text v (x @ xs)" by auto
  show ?thesis
  proof (cases xs)
    case Nil
    with t have "scan_inv (StateEndValue v) stk s" by (intro value_end_inv [of stk t v x]) auto
    with StateLiteral Nil end_value_inv show ?thesis by simp
  next
    case (Cons y ys)
    have "scan_inv (StateEndValue v) stk (s @ [y])" if "ys = []"
      using t Cons that by (intro value_end_inv [of stk t v "x @ [y]"]) auto
    moreover have "scan_inv (StateLiteral ys v) stk (s @ [y])"
      unfolding scan_inv.simps by (rule exI [of _ t], rule exI [of _ "x @ [y]"]) (use t Cons in simp)
    ultimately show ?thesis using StateLiteral Cons by (auto simp del: scan_inv.simps)
  qed
qed (use assms in \<open>auto intro: begin_value_inv begin_string_inv end_value_inv simp del: scan_inv.simps(8)\<close>)

lemma readValue_sound:
  assumes "scan_inv st stk s" and "readValue e buf st stk bs = Inr (v, rest)"
  shows "\<exists>w x. s @ bs = w @ x @ rest \<and> spaces w \<and> value_text v x"
  using assms
proof (induction bs arbitrary: st stk s buf)
  case Nil
  with scan_step_inv [OF Nil(1), of "CHR '' ''"] show ?case by (auto split: if_splits scanned.splits)
next
  case (Cons c cs)
  note step = scan_step_inv [OF Cons(2), of c]
  show ?case
  proof (cases "scan_step st stk c")
    case (ScanContinue st' stk')
    with Cons.IH [of st' stk' "s @ [c]" "buf @ [c]"] Cons(3) step show ?thesis by simp
  qed (use Cons(3) step in auto)
qed

section \<open>The scanner reads what the grammar derives\<close>

fun scan_run :: "scan_state \<Rightarrow> frame list \<Rightarrow> string \<Rightarrow> (scan_state \<times> frame list) option" where
  "scan_run st stk [] = Some (st, stk)"
| "scan_run st stk (c # cs) = (case scan_step st stk c of ScanContinue st' stk' \<Rightarrow> scan_run st' stk' cs | _ \<Rightarrow> None)"

lemma scan_run_append:
  "scan_run st stk (xs @ ys) = (case scan_run st stk xs of None \<Rightarrow> None | Some (st', stk') \<Rightarrow> scan_run st' stk' ys)"
  by (induction xs arbitrary: st stk) (auto split: scanned.split)

lemma readValue_run:
  assumes "scan_run st stk xs = Some (st', stk')"
  shows "readValue e buf st stk (xs @ ys) = readValue e (buf @ xs) st' stk' ys"
  using assms by (induction xs arbitrary: st stk buf) (auto split: scanned.splits)

text \<open>The scanner has read a complete value; a number is only known to be complete at the byte after it.\<close>

definition ended :: "json \<Rightarrow> scan_state \<Rightarrow> bool" where
  "ended v st \<longleftrightarrow> st = StateEndValue v \<or> (\<exists>ns n. v = Num n \<and> st = StateNumber ns n \<and> num_final ns)"

definition delimiter :: "char \<Rightarrow> bool" where
  "delimiter c \<longleftrightarrow> \<not> isDigit c \<and> c \<noteq> CHR ''.'' \<and> c \<noteq> CHR ''e'' \<and> c \<noteq> CHR ''E''"

lemma ended_step:
  assumes "ended v st" and "delimiter c"
  shows "scan_step st stk c = stateEndValue v stk c"
proof -
  have "num_step ns c = None" if "num_final ns" for ns
    using assms(2) that by (cases ns) (auto simp: delimiter_def)
  with assms(1) show ?thesis by (auto simp: ended_def stateNumber_def)
qed

lemma delimiters [simp]:
  "delimiter (CHR '','')" "delimiter (CHR '']'')" "delimiter (CHR ''}'')" "isSpace c \<Longrightarrow> delimiter c"
  by (auto simp: delimiter_def isDigit_def isSpace_def)

lemma not_space [simp]:
  "\<not> isSpace (CHR '','')" "\<not> isSpace (CHR '']'')" "\<not> isSpace (CHR ''}'')" "\<not> isSpace (CHR '':'')" "\<not> isSpace (CHR 0x22)"
  "\<not> isSpace (CHR ''['')" "\<not> isSpace (CHR ''{'')" "\<not> isSpace (CHR ''-'')" "\<not> isSpace (CHR ''t'')" "\<not> isSpace (CHR ''f'')" "\<not> isSpace (CHR ''n'')"
  by (simp_all add: isSpace_def)

lemma not_digit [simp]: "\<not> isDigit (CHR ''-'')" "\<not> isDigit (CHR ''+'')" "\<not> isDigit (CHR ''.'')" "\<not> isDigit (CHR ''e'')" "\<not> isDigit (CHR ''E'')"
  by (simp_all add: isDigit_def)

lemma digit_not:
  assumes "isDigit c"
  shows "\<not> isSpace c" "c \<notin> set ''{[-tfn.eE+'' \<union> {CHR 0x22}"
  using assms by (auto simp: isDigit_def isSpace_def)

lemma spaces_run:
  assumes "spaces w"
  shows "scan_run StateBeginValue stk w = Some (StateBeginValue, stk)"
    and "scan_run StateBeginValueOrEmpty stk w = Some (StateBeginValueOrEmpty, stk)"
    and "scan_run StateBeginString stk w = Some (StateBeginString, stk)"
    and "scan_run StateBeginStringOrEmpty stk w = Some (StateBeginStringOrEmpty, stk)"
    and "scan_run (StateEndValue v) (f # stk) w = Some (StateEndValue v, f # stk)"
  using assms
  by (induction w) (auto simp: stateBeginValue_def stateBeginValueOrEmpty_def stateBeginString_def stateBeginStringOrEmpty_def)

lemma ended_spaces:
  assumes "ended v st" and "spaces w"
  shows "\<exists>st'. scan_run st (f # stk) w = Some (st', f # stk) \<and> ended v st'"
proof (cases w)
  case (Cons c cs)
  with assms ended_step [OF assms(1), of c "f # stk"] spaces_run(5) [of cs v f stk] show ?thesis by (auto simp: ended_def)
qed (use assms in simp)

subsection \<open>Strings and numbers\<close>

lemma string_run:
  assumes "string_text s"
  shows "scan_run (StateString StateInString r) stk s = Some (StateString StateInString (r @ s), stk)"
  using assms
proof (induction arbitrary: r rule: string_text.induct)
  case (unicode s h)
  then obtain a b c d where "h = [a, b, c, d]" "isHex a" "isHex b" "isHex c" "isHex d"
    by (auto simp: numeral_eq_Suc length_Suc_conv)
  with unicode show ?case by (simp add: scan_run_append numeral_eq_Suc)
qed (auto simp: scan_run_append not_less)

lemma quoted_run:
  assumes "string_text k"
  shows "scan_run StateBeginString stk (CHR 0x22 # k @ CHR 0x22 # ys) = scan_run (StateEndValue (Str k)) stk ys"
    and "scan_run StateBeginValue stk (CHR 0x22 # k @ CHR 0x22 # ys) = scan_run (StateEndValue (Str k)) stk ys"
  using string_run [OF assms, of "[]" stk] by (simp_all add: scan_run_append stateBeginString_def stateBeginValue_def)

lemma digits_run:
  assumes "digits ds" and "ns \<in> {State1, StateDot0, StateE0}"
  shows "scan_run (StateNumber ns r) stk ds = Some (StateNumber ns (r @ ds), stk)"
  using assms by (induction ds arbitrary: r) (auto simp: stateNumber_def)

lemma mantissa_run:
  assumes "mantissa m"
  shows "\<exists>ns. ns \<in> {State0, State1} \<and> scan_run StateBeginValue stk m = Some (StateNumber ns m, stk)"
proof -
  from assms obtain i where i: "int_text i" "m = i \<or> m = CHR ''-'' # i" by (auto simp: mantissa_def)
  have "\<exists>ns. ns \<in> {State0, State1} \<and> scan_run StateBeginValue stk i = Some (StateNumber ns i, stk) \<and>
      scan_run (StateNumber StateNeg ''-'') stk i = Some (StateNumber ns (CHR ''-'' # i), stk)"
  proof (cases "i = ''0''")
    case True
    then show ?thesis by (simp add: stateBeginValue_def stateNumber_def isSpace_def isDigit_def)
  next
    case False
    with i(1) obtain d ds where d: "i = d # ds" "isDigit d" "d \<noteq> CHR ''0''" "digits ds" by (auto simp: int_text_def)
    with digit_not [OF d(2)] digits_run [OF d(4), of State1] show ?thesis
      by (auto simp: stateBeginValue_def stateNumber_def)
  qed
  with i(2) show ?thesis by (auto simp: stateBeginValue_def)
qed

lemma frac_run:
  assumes "frac_text f" and "ns \<in> {State0, State1}"
  shows "\<exists>ns'. ns' \<in> {State0, State1, StateDot0} \<and> scan_run (StateNumber ns r) stk f = Some (StateNumber ns' (r @ f), stk)"
proof (cases "f = []")
  case False
  with assms(1) obtain d ds where d: "f = CHR ''.'' # d # ds" "isDigit d" "digits ds"
    by (auto simp: frac_text_def neq_Nil_conv)
  with assms(2) digits_run [OF d(3), of StateDot0] show ?thesis by (auto simp: stateNumber_def)
qed (use assms in auto)

lemma exp_run:
  assumes "exp_text x" and "ns \<in> {State0, State1, StateDot0}"
  shows "\<exists>ns'. num_final ns' \<and> scan_run (StateNumber ns r) stk x = Some (StateNumber ns' (r @ x), stk)"
proof (cases "x = []")
  case False
  with assms(1) obtain e g u where u: "x = e # g @ u" "e = CHR ''e'' \<or> e = CHR ''E''" "g = [] \<or> g = ''+'' \<or> g = ''-''"
    "u \<noteq> []" "digits u" unfolding exp_text_def by blast
  from u(4) obtain d ds where "u = d # ds" by (cases u) auto
  with u have d: "x = e # g @ d # ds" "e = CHR ''e'' \<or> e = CHR ''E''" "g = [] \<or> g = ''+'' \<or> g = ''-''"
    "isDigit d" "digits ds" by simp_all
  have "num_step ns e = Some StateE" using assms(2) d(2) by auto
  with d digit_not [OF d(4)] digits_run [OF d(5), of StateE0] show ?thesis by (auto simp: stateNumber_def)
qed (use assms in auto)

lemma number_run:
  assumes "number_text n"
  shows "\<exists>st. scan_run StateBeginValue stk n = Some (st, stk) \<and> ended (Num n) st"
proof -
  from assms obtain m f x where n: "n = m @ f @ x" "mantissa m" "frac_text f" "exp_text x" by (auto simp: number_text_def)
  obtain ns where ns: "ns \<in> {State0, State1}" "scan_run StateBeginValue stk m = Some (StateNumber ns m, stk)"
    using mantissa_run [OF n(2)] by blast
  obtain ns' where ns': "ns' \<in> {State0, State1, StateDot0}" "scan_run (StateNumber ns m) stk f = Some (StateNumber ns' (m @ f), stk)"
    using frac_run [OF n(3) ns(1)] by blast
  from exp_run [OF n(4) ns'(1), of "m @ f" stk] ns ns' n(1) show ?thesis by (auto simp: scan_run_append ended_def)
qed

subsection \<open>Values\<close>

text \<open>Reading a value: it is complete, or its last byte closes it.\<close>

definition completes :: "frame list \<Rightarrow> json \<Rightarrow> string \<Rightarrow> bool" where
  "completes stk v x \<longleftrightarrow> (\<exists>st. scan_run StateBeginValue stk x = Some (st, stk) \<and> ended v st) \<or>
     (\<exists>y c st stk'. x = y @ [c] \<and> scan_run StateBeginValue stk y = Some (st, stk') \<and> scan_step st stk' c = popParseState v stk)"

lemma completes_inside:
  assumes "completes (f # stk) v x"
  shows "\<exists>st. scan_run StateBeginValue (f # stk) x = Some (st, f # stk) \<and> ended v st"
  using assms by (auto simp: completes_def popParseState_def scan_run_append ended_def)

lemma run_or_empty:
  assumes "scan_run st stk s = Some (st', stk')" and "st' \<noteq> st"
  shows "st = StateBeginValue \<Longrightarrow> scan_run StateBeginValueOrEmpty stk s = Some (st', stk')"
    and "st = StateBeginString \<Longrightarrow> scan_run StateBeginStringOrEmpty stk s = Some (st', stk')"
  using assms
proof (induction s)
  case (Cons c cs)
  {
    case 1
    with Cons(1) show ?case
      by (cases "isSpace c"; cases "c = CHR '']''") (auto simp: stateBeginValue_def stateBeginValueOrEmpty_def isDigit_def split: scanned.splits if_splits)
  next
    case 2
    with Cons(2) show ?case
      by (cases "isSpace c"; cases "c = CHR ''}''") (auto simp: stateBeginString_def stateBeginStringOrEmpty_def split: scanned.splits if_splits)
  }
qed simp_all

lemma ended_not_begin: "ended v st \<Longrightarrow> st \<noteq> StateBeginValue \<and> st \<noteq> StateBeginString"
  by (auto simp: ended_def)

text \<open>The elements of an array and the members of an object up to their closing byte.\<close>

definition elements_run :: "json list \<Rightarrow> string \<Rightarrow> bool" where
  "elements_run vs s \<longleftrightarrow> (\<forall>stk. \<exists>us u st. vs = us @ [u] \<and>
     scan_run StateBeginValue (ArrayValue [] # stk) s = Some (st, ArrayValue us # stk) \<and> ended u st)"

definition members_run :: "(string \<times> json) list \<Rightarrow> string \<Rightarrow> bool" where
  "members_run ms s \<longleftrightarrow> (\<forall>stk. \<exists>ns k u st. ms = ns @ [(k, u)] \<and>
     scan_run StateBeginString (ObjectKey [] # stk) s = Some (st, ObjectValue ns k # stk) \<and> ended u st)"

lemma spaced_value_run:
  assumes "completes (f # stk) v x" and "spaces w" and "spaces w'"
  shows "\<exists>st. scan_run StateBeginValue (f # stk) (w @ x @ w') = Some (st, f # stk) \<and> ended v st"
  using completes_inside [OF assms(1)] ended_spaces [OF _ assms(3), of v _ f stk] spaces_run(1) [OF assms(2), of "f # stk"]
  by (fastforce simp: scan_run_append)

lemma member_run:
  assumes "\<And>stk. completes stk v x" and "spaces w" "string_text k" "spaces w1" "spaces w2" "spaces w'"
  shows "\<exists>st. scan_run StateBeginString (ObjectKey ms # stk) (w @ quoted k @ w1 @ CHR '':'' # w2 @ x @ w') =
    Some (st, ObjectValue ms k # stk) \<and> ended v st"
  using spaced_value_run [OF assms(1,5,6), of "ObjectValue ms k" stk] spaces_run(3) [OF assms(2)]
    spaces_run(5) [OF assms(4)]
  by (auto simp: scan_run_append quoted_run(1) [OF assms(3)] simp del: scan_run.simps(2)) (simp_all add: scan_run_append)

lemma array_completes:
  assumes "elements_run vs s"
  shows "completes stk (Arr vs) (CHR ''['' # s @ '']'')"
proof -
  from assms obtain us u st where u: "vs = us @ [u]" "ended u st"
    and run: "scan_run StateBeginValue (ArrayValue [] # stk) s = Some (st, ArrayValue us # stk)"
    unfolding elements_run_def by blast
  have "scan_run StateBeginValueOrEmpty (ArrayValue [] # stk) s = Some (st, ArrayValue us # stk)"
    using run_or_empty(1) [OF run _ refl] ended_not_begin [OF u(2)] by simp
  then have "scan_run StateBeginValue stk (CHR ''['' # s) = Some (st, ArrayValue us # stk)" by (simp add: stateBeginValue_def)
  moreover have "scan_step st (ArrayValue us # stk) (CHR '']'') = popParseState (Arr vs) stk"
    by (simp add: ended_step [OF u(2)] u(1))
  moreover have "CHR ''['' # s @ '']'' = (CHR ''['' # s) @ [CHR '']'']" by simp
  ultimately show ?thesis unfolding completes_def by blast
qed

lemma object_completes:
  assumes "members_run ms s"
  shows "completes stk (Obj ms) (CHR ''{'' # s @ ''}'')"
proof -
  from assms obtain ns k u st where u: "ms = ns @ [(k, u)]" "ended u st"
    and run: "scan_run StateBeginString (ObjectKey [] # stk) s = Some (st, ObjectValue ns k # stk)"
    unfolding members_run_def by blast
  have "scan_run StateBeginStringOrEmpty (ObjectKey [] # stk) s = Some (st, ObjectValue ns k # stk)"
    using run_or_empty(2) [OF run _ refl] ended_not_begin [OF u(2)] by simp
  then have "scan_run StateBeginValue stk (CHR ''{'' # s) = Some (st, ObjectValue ns k # stk)" by (simp add: stateBeginValue_def)
  moreover have "scan_step st (ObjectValue ns k # stk) (CHR ''}'') = popParseState (Obj ms) stk"
    by (simp add: ended_step [OF u(2)] u(1))
  moreover have "CHR ''{'' # s @ ''}'' = (CHR ''{'' # s) @ [CHR ''}'']" by simp
  ultimately show ?thesis unfolding completes_def by blast
qed

lemma empty_completes:
  assumes "spaces w"
  shows "completes stk (Arr []) (CHR ''['' # w @ '']'')" and "completes stk (Obj []) (CHR ''{'' # w @ ''}'')"
proof -
  have "scan_run StateBeginValue stk (CHR ''['' # w) = Some (StateBeginValueOrEmpty, ArrayValue [] # stk)"
    "scan_run StateBeginValue stk (CHR ''{'' # w) = Some (StateBeginStringOrEmpty, ObjectKey [] # stk)"
    using spaces_run(2,4) [OF assms] by (simp_all add: stateBeginValue_def)
  moreover have "scan_step StateBeginValueOrEmpty (ArrayValue [] # stk) (CHR '']'') = popParseState (Arr []) stk"
    "scan_step StateBeginStringOrEmpty (ObjectKey [] # stk) (CHR ''}'') = popParseState (Obj []) stk"
    by (simp_all add: stateBeginValueOrEmpty_def stateBeginStringOrEmpty_def)
  moreover have "CHR ''['' # w @ '']'' = (CHR ''['' # w) @ [CHR '']'']" "CHR ''{'' # w @ ''}'' = (CHR ''{'' # w) @ [CHR ''}'']" by simp_all
  ultimately show "completes stk (Arr []) (CHR ''['' # w @ '']'')" "completes stk (Obj []) (CHR ''{'' # w @ ''}'')"
    unfolding completes_def by blast+
qed

lemma literal_completes:
  "completes stk Null ''null''" "completes stk (Bool True) ''true''" "completes stk (Bool False) ''false''"
  by (simp_all add: completes_def stateBeginValue_def ended_def)

lemma elements_run_more:
  assumes "elements_run vs s" and "\<And>stk. completes stk v x" and "spaces w" and "spaces w'"
  shows "elements_run (vs @ [v]) (s @ CHR '','' # w @ x @ w')"
  unfolding elements_run_def
proof
  fix stk
  from assms(1) obtain us u st where u: "vs = us @ [u]" "ended u st"
    "scan_run StateBeginValue (ArrayValue [] # stk) s = Some (st, ArrayValue us # stk)" unfolding elements_run_def by blast
  with spaced_value_run [OF assms(2,3,4), of "ArrayValue vs" stk] ended_step [OF u(2), of "CHR '',''" "ArrayValue us # stk"]
  show "\<exists>us u st. vs @ [v] = us @ [u] \<and>
    scan_run StateBeginValue (ArrayValue [] # stk) (s @ CHR '','' # w @ x @ w') = Some (st, ArrayValue us # stk) \<and> ended u st"
    by (auto simp: scan_run_append)
qed

lemma members_run_more:
  assumes "members_run ms s" and "\<And>stk. completes stk v x" and "spaces w" "string_text k" "spaces w1" "spaces w2" "spaces w'"
  shows "members_run (ms @ [(k, v)]) (s @ CHR '','' # w @ quoted k @ w1 @ CHR '':'' # w2 @ x @ w')"
  unfolding members_run_def
proof
  fix stk
  from assms(1) obtain ns j u st where u: "ms = ns @ [(j, u)]" "ended u st"
    "scan_run StateBeginString (ObjectKey [] # stk) s = Some (st, ObjectValue ns j # stk)" unfolding members_run_def by blast
  with member_run [OF assms(2-7), of ms stk] ended_step [OF u(2), of "CHR '',''" "ObjectValue ns j # stk"]
  show "\<exists>ns j u st. ms @ [(k, v)] = ns @ [(j, u)] \<and>
    scan_run StateBeginString (ObjectKey [] # stk) (s @ CHR '','' # w @ quoted k @ w1 @ CHR '':'' # w2 @ x @ w') =
      Some (st, ObjectValue ns j # stk) \<and> ended u st"
    by (auto simp: scan_run_append)
qed

lemma grammar_completes:
  "value_text v x \<Longrightarrow> completes stk v x"
  "elements vs s \<Longrightarrow> elements_run vs s"
  "members ms t \<Longrightarrow> members_run ms t"
proof (induction arbitrary: stk and and rule: value_text_elements_members.inducts)
  case (number n)
  then show ?case using number_run by (simp add: completes_def)
next
  case (str s)
  then show ?case using quoted_run(2) [of s stk "[]"] by (simp add: completes_def ended_def)
next
  case (one_element w v x w')
  then show ?case using spaced_value_run by (fastforce simp: elements_run_def)
next
  case (one_member w k w1 w2 v x w')
  then show ?case using member_run [of v x w k w1 w2 w' "[]"] by (fastforce simp: members_run_def)
next
  case (more_elements vs s w v x w')
  then show ?case by (intro elements_run_more)
next
  case (more_members ms s w k w1 w2 v x w')
  then show ?case by (intro members_run_more)
qed (simp_all add: literal_completes array_completes object_completes empty_completes [simplified])

section \<open>Documents\<close>

text \<open>The end of a stream is reported as such exactly if only space was left.\<close>

lemma readValue_spaces:
  assumes "spaces w"
  shows "readValue e buf StateBeginValue [] (w @ ys) = readValue e (buf @ w) StateBeginValue [] ys"
  using readValue_run [OF spaces_run(1) [OF assms]] .

lemma nonSpace_spaces: "nonSpace w \<longleftrightarrow> \<not> spaces w"
  by (induction w) (auto simp: nonSpace_def)

lemma readValue_inside:
  assumes "nonSpace buf"
  shows "readValue e buf st stk bs \<noteq> Inl (Read EOF)"
  using assms
  by (induction bs arbitrary: buf st stk) (auto simp: nonSpace_def split: scanned.split)

lemma readValue_eof: "readValue e [] StateBeginValue [] bs = Inl (Read EOF) \<longleftrightarrow> e = EOF \<and> spaces bs"
proof (cases "spaces bs")
  case True
  with readValue_spaces [OF True, of e "[]" "[]"] show ?thesis
    by (auto simp: stateBeginValue_def nonSpace_spaces isSpace_def)
next
  case False
  then obtain w c cs where w: "bs = w @ c # cs" "spaces w" "\<not> isSpace c"
    using split_list_first_prop [of bs "\<lambda>c. \<not> isSpace c"] by (auto simp: list_all_iff)
  have "readValue e w StateBeginValue [] (c # cs) \<noteq> Inl (Read EOF)"
    using readValue_inside [of "w @ [c]"] w(3) by (auto simp: nonSpace_def split: scanned.split)
  with w(1) readValue_spaces [OF w(2), of e "[]" "c # cs"] False show ?thesis by simp
qed

lemma readValue_complete:
  assumes "value_text v x" and "spaces w" and "spaces w'"
  shows "readValue EOF [] StateBeginValue [] (w @ x @ w') = Inr (v, w')"
proof -
  have "readValue EOF [] StateBeginValue [] (w @ x @ w') = readValue EOF w StateBeginValue [] (x @ w')"
    using readValue_spaces [OF assms(2)] by simp
  also have "\<dots> = Inr (v, w')"
    using grammar_completes(1) [OF assms(1), of "[]"] unfolding completes_def
  proof (elim disjE exE conjE)
    fix st
    assume run: "scan_run StateBeginValue [] x = Some (st, [])" and st: "ended v st"
    have "readValue EOF (w @ x) st [] w' = Inr (v, w')"
    proof (cases w')
      case Nil
      with ended_step [OF st, of "CHR '' ''" "[]"] show ?thesis by (simp add: isSpace_def)
    next
      case (Cons c cs)
      with ended_step [OF st, of c "[]"] assms(3) show ?thesis by simp
    qed
    with readValue_run [OF run] show ?thesis by simp
  next
    fix y c st stk'
    assume "x = y @ [c]" "scan_run StateBeginValue [] y = Some (st, stk')" "scan_step st stk' c = popParseState v []"
    then show ?thesis using readValue_run [of StateBeginValue "[]" y st stk' EOF w "c # w'"] by (simp add: popParseState_def)
  qed
  finally show ?thesis .
qed

text \<open>A document: one value with space around it.\<close>

definition json_document :: "json \<Rightarrow> string \<Rightarrow> bool" where
  "json_document v bs \<longleftrightarrow> (\<exists>w x w'. bs = w @ x @ w' \<and> spaces w \<and> value_text v x \<and> spaces w')"

theorem document_scanned:
  "json_document v bs \<longleftrightarrow> (\<exists>rest. readValue EOF [] StateBeginValue [] bs = Inr (v, rest) \<and> spaces rest)"
proof
  assume "json_document v bs"
  then show "\<exists>rest. readValue EOF [] StateBeginValue [] bs = Inr (v, rest) \<and> spaces rest"
    using readValue_complete unfolding json_document_def by blast
next
  assume "\<exists>rest. readValue EOF [] StateBeginValue [] bs = Inr (v, rest) \<and> spaces rest"
  then obtain rest where rest: "readValue EOF [] StateBeginValue [] bs = Inr (v, rest)" "spaces rest" by blast
  have "scan_inv StateBeginValue [] []" by (simp add: before_value_before_key.top)
  from readValue_sound [OF this rest(1)] rest(2) show "json_document v bs" unfolding json_document_def by auto
qed

text \<open>A document has one value.\<close>

lemma document_unique: "json_document v bs \<Longrightarrow> json_document u bs \<Longrightarrow> v = u"
  unfolding document_scanned by auto

end
