(* ===== verification/Go_Unquote.thy ===== *)
theory Go_Unquote
  imports Go_Json
begin

text \<open>
  The interpretation of JSON string literals in Go's \<^verbatim>\<open>encoding/json\<close> (\<^verbatim>\<open>unquoteBytes\<close>), on the text
  between the quotes, with the parts of \<^verbatim>\<open>unicode/utf8\<close> and \<^verbatim>\<open>unicode/utf16\<close> it uses: escapes are
  resolved, pairs of surrogates joined, and everything that is not valid UTF-8 is replaced by the
  replacement character. The result is always valid UTF-8, and the usual quoting is inverted.
\<close>

section \<open>UTF-8\<close>

abbreviation byte :: "char \<Rightarrow> nat" where
  "byte c \<equiv> of_char c"

definition between :: "nat \<Rightarrow> char \<Rightarrow> nat \<Rightarrow> bool" where
  "between lo c hi \<longleftrightarrow> lo \<le> byte c \<and> byte c \<le> hi"

definition two_bytes :: "char \<Rightarrow> char \<Rightarrow> bool" where
  "two_bytes a b \<longleftrightarrow> between 0xC2 a 0xDF \<and> between 0x80 b 0xBF"

definition three_bytes :: "char \<Rightarrow> char \<Rightarrow> char \<Rightarrow> bool" where
  "three_bytes a b c \<longleftrightarrow>
     (between 0xE0 a 0xE0 \<and> between 0xA0 b 0xBF \<or> between 0xE1 a 0xEC \<and> between 0x80 b 0xBF \<or>
      between 0xED a 0xED \<and> between 0x80 b 0x9F \<or> between 0xEE a 0xEF \<and> between 0x80 b 0xBF) \<and> between 0x80 c 0xBF"

definition four_bytes :: "char \<Rightarrow> char \<Rightarrow> char \<Rightarrow> char \<Rightarrow> bool" where
  "four_bytes a b c d \<longleftrightarrow>
     (between 0xF0 a 0xF0 \<and> between 0x90 b 0xBF \<or> between 0xF1 a 0xF3 \<and> between 0x80 b 0xBF \<or>
      between 0xF4 a 0xF4 \<and> between 0x80 b 0x8F) \<and> between 0x80 c 0xBF \<and> between 0x80 d 0xBF"

lemmas sequence_defs = between_def two_bytes_def three_bytes_def four_bytes_def

text \<open>The length of the UTF-8 sequence at the start of a text, as \<^verbatim>\<open>utf8.DecodeRune\<close> finds it; 0 where
  it finds none.\<close>

fun rune_len :: "string \<Rightarrow> nat" where
  "rune_len [] = 0"
| "rune_len [a] = (if between 0 a 0x7F then 1 else 0)"
| "rune_len [a, b] = (if between 0 a 0x7F then 1 else if two_bytes a b then 2 else 0)"
| "rune_len [a, b, c] = (if between 0 a 0x7F then 1 else if two_bytes a b then 2 else if three_bytes a b c then 3 else 0)"
| "rune_len (a # b # c # d # s) =
     (if between 0 a 0x7F then 1 else if two_bytes a b then 2 else if three_bytes a b c then 3
      else if four_bytes a b c d then 4 else 0)"

text \<open>\<^verbatim>\<open>utf8.EncodeRune\<close>; surrogates and numbers beyond Unicode become the replacement character.\<close>

definition EncodeRune :: "nat \<Rightarrow> string" where
  "EncodeRune r =
     (if r < 0x80 then [char_of r]
      else if r < 0x800 then [char_of (0xC0 + r div 64), char_of (0x80 + r mod 64)]
      else if 0xD800 \<le> r \<and> r < 0xE000 \<or> 0x110000 \<le> r then [CHR 0xEF, CHR 0xBF, CHR 0xBD]
      else if r < 0x10000 then [char_of (0xE0 + r div 4096), char_of (0x80 + r div 64 mod 64), char_of (0x80 + r mod 64)]
      else [char_of (0xF0 + r div 262144), char_of (0x80 + r div 4096 mod 64), char_of (0x80 + r div 64 mod 64), char_of (0x80 + r mod 64)])"

section \<open>Escapes\<close>

definition hex_value :: "char \<Rightarrow> nat" where
  "hex_value c = (if between 48 c 57 then byte c - 48 else if between 97 c 102 then byte c - 87 else byte c - 55)"

text \<open>\<^verbatim>\<open>getu4\<close> after the backslash and the letter u.\<close>

fun hex4 :: "string \<Rightarrow> nat option" where
  "hex4 (a # b # c # d # s) =
     (if isHex a \<and> isHex b \<and> isHex c \<and> isHex d
      then Some (((hex_value a * 16 + hex_value b) * 16 + hex_value c) * 16 + hex_value d) else None)"
| "hex4 _ = None"

definition getu4 :: "string \<Rightarrow> nat option" where
  "getu4 s = (if take 2 s = [CHR 0x5C, CHR ''u''] then hex4 (drop 2 s) else None)"

definition IsSurrogate :: "nat \<Rightarrow> bool" where
  "IsSurrogate r \<longleftrightarrow> 0xD800 \<le> r \<and> r < 0xE000"

text \<open>\<^verbatim>\<open>utf16.DecodeRune\<close>, \<^const>\<open>None\<close> for the replacement character.\<close>

definition surrogate_pair :: "nat \<Rightarrow> nat option \<Rightarrow> nat option" where
  "surrogate_pair r1 r2 = (case r2 of
       Some r \<Rightarrow> if 0xD800 \<le> r1 \<and> r1 < 0xDC00 \<and> 0xDC00 \<le> r \<and> r < 0xE000
         then Some ((r1 - 0xD800) * 1024 + (r - 0xDC00) + 0x10000) else None
     | None \<Rightarrow> None)"

definition escape_letters :: string where
  "escape_letters = ''bfnrt/'' @ [CHR 0x5C, CHR 0x22, CHR 0x27]"

definition escaped :: "char \<Rightarrow> char" where
  "escaped c = (if c = CHR ''b'' then CHR 0x08 else if c = CHR ''f'' then CHR 0x0C else if c = CHR ''n'' then CHR 0x0A
     else if c = CHR ''r'' then CHR 0x0D else if c = CHR ''t'' then CHR 0x09 else c)"

abbreviation ReplacementChar :: string where
  "ReplacementChar \<equiv> [CHR 0xEF, CHR 0xBF, CHR 0xBD]"

text \<open>
  \<^verbatim>\<open>unquoteBytes\<close>. The scanner has checked the text, so the cases in which it gives up (a bare quote or
  control character, an escape cut short or unknown) do not occur; they end the result here.
\<close>

function (sequential) unquote :: "string \<Rightarrow> string" where
  "unquote [] = []"
| "unquote (c # s) =
     (if c = CHR 0x5C then
        (case s of
           [] \<Rightarrow> []
         | e # t \<Rightarrow>
             if e = CHR ''u'' then
               (case hex4 t of
                  None \<Rightarrow> []
                | Some r \<Rightarrow>
                    if IsSurrogate r then
                      (case surrogate_pair r (getu4 (drop 4 t)) of
                         Some p \<Rightarrow> EncodeRune p @ unquote (drop 10 t)
                       | None \<Rightarrow> ReplacementChar @ unquote (drop 4 t))
                    else EncodeRune r @ unquote (drop 4 t))
             else if e \<in> set escape_letters then escaped e # unquote t
             else [])
      else if c = CHR 0x22 \<or> c < CHR '' '' then []
      else if rune_len (c # s) = 0 then ReplacementChar @ unquote s
      else take (rune_len (c # s)) (c # s) @ unquote (drop (rune_len (c # s)) (c # s)))"
  by pat_completeness auto
termination by (relation "measure length") auto

text \<open>Valid UTF-8.\<close>

function (sequential) valid_utf8 :: "string \<Rightarrow> bool" where
  "valid_utf8 [] = True"
| "valid_utf8 (c # s) = (if rune_len (c # s) = 0 then False else valid_utf8 (drop (rune_len (c # s)) (c # s)))"
  by pat_completeness auto
termination by (relation "measure length") auto

section \<open>The result is valid UTF-8\<close>

lemma rune_len_append:
  assumes "rune_len s \<noteq> 0"
  shows "rune_len (s @ t) = rune_len s"
proof (cases s rule: rune_len.cases)
  case (2 a)
  with assms show ?thesis by (cases t rule: rune_len.cases) (auto split: if_splits)
next
  case (3 a b)
  with assms show ?thesis by (cases t rule: rune_len.cases) (auto split: if_splits)
next
  case (4 a b c)
  with assms show ?thesis by (cases t) (auto split: if_splits)
qed (use assms in auto)

lemma rune_len_le: "rune_len s \<le> length s"
  by (cases s rule: rune_len.cases) auto

text \<open>One whole sequence in front keeps a text valid.\<close>

lemma valid_utf8_sequence:
  assumes "rune_len s = length s" and "s \<noteq> []" and "valid_utf8 t"
  shows "valid_utf8 (s @ t)"
proof -
  have "rune_len (s @ t) = length s" using assms rune_len_append [of s t] by simp
  with assms show ?thesis by (cases s) auto
qed

lemma rune_len_take:
  assumes "rune_len s \<noteq> 0"
  shows "rune_len (take (rune_len s) s) = rune_len s"
  using assms by (cases s rule: rune_len.cases) (auto split: if_splits simp: numeral_eq_Suc)

lemma byte_char_of [simp]: "n < 256 \<Longrightarrow> byte (char_of n) = n"
  by simp

lemma EncodeRune_sequence: "rune_len (EncodeRune r) = length (EncodeRune r)"
proof -
  have m: "r div 64 mod 64 < 64" "r mod 64 < 64" "r div 4096 mod 64 < 64" by simp_all
  consider "r < 0x80" | "0x80 \<le> r" "r < 0x800" | "0xD800 \<le> r \<and> r < 0xE000 \<or> 0x110000 \<le> r"
    | "0x800 \<le> r" "r < 0x10000" "\<not> (0xD800 \<le> r \<and> r < 0xE000)" | "0x10000 \<le> r" "r < 0x110000" by linarith
  then show ?thesis
  proof cases
    case 1
    then show ?thesis by (simp add: EncodeRune_def sequence_defs)
  next
    case 2
    then have "r div 64 < 32" "2 \<le> r div 64" by auto
    with 2 m show ?thesis by (simp add: EncodeRune_def sequence_defs)
  next
    case 3
    then show ?thesis by (auto simp: EncodeRune_def sequence_defs)
  next
    case 4
    define a b where "a = r div 4096" and "b = r div 64 mod 64"
    have r: "a < 16" "b < 64" "a * 64 + b = r div 64"
      using 4 div_mult_mod_eq [of "r div 64" 64] div_mult2_eq [of r 64 64] by (auto simp: a_def b_def)
    have "32 \<le> r div 64" "r div 64 < 0x360 \<or> 0x380 \<le> r div 64" using 4 by auto
    then have "32 \<le> a * 64 + b" "a * 64 + b < 0x360 \<or> 0x380 \<le> a * 64 + b" unfolding r(3) .
    then have "a = 0 \<and> 32 \<le> b \<or> 1 \<le> a \<and> a \<le> 12 \<or> a = 13 \<and> b < 32 \<or> 14 \<le> a" using r(1,2) by linarith
    with 4 r m show ?thesis by (auto simp: EncodeRune_def sequence_defs simp flip: a_def b_def)
  next
    case 5
    define a b where "a = r div 262144" and "b = r div 4096 mod 64"
    have r: "a < 5" "b < 64" "a * 64 + b = r div 4096"
      using 5 div_mult_mod_eq [of "r div 4096" 64] div_mult2_eq [of r 4096 64] by (auto simp: a_def b_def)
    have "16 \<le> r div 4096" "r div 4096 < 0x110" using 5 by auto
    then have "16 \<le> a * 64 + b" "a * 64 + b < 0x110" unfolding r(3) .
    then have "a = 0 \<and> 16 \<le> b \<or> 1 \<le> a \<and> a \<le> 3 \<or> a = 4 \<and> b < 16" using r(1,2) by linarith
    with 5 r m show ?thesis by (auto simp: EncodeRune_def sequence_defs simp flip: a_def b_def)
  qed
qed

lemma EncodeRune_nonempty [simp]: "EncodeRune r \<noteq> []"
  by (simp add: EncodeRune_def)

lemma escaped_sequence:
  assumes "e \<in> set escape_letters"
  shows "rune_len [escaped e] = length [escaped e]"
proof -
  have "list_all (\<lambda>e. rune_len [escaped e] = length [escaped e]) escape_letters" by code_simp
  with assms show ?thesis unfolding list_all_iff by blast
qed

lemma replacement_front: "valid_utf8 t \<Longrightarrow> valid_utf8 (ReplacementChar @ t)"
  by (rule valid_utf8_sequence) (code_simp, simp)

lemmas valid_utf8_front = valid_utf8_sequence [OF EncodeRune_sequence EncodeRune_nonempty] replacement_front

theorem unquote_valid: "valid_utf8 (unquote raw)"
proof (induction raw rule: unquote.induct)
  case (2 c s)
  consider e t where "c = CHR 0x5C" "s = e # t" | "c = CHR 0x5C" "s = []" | "c \<noteq> CHR 0x5C" by (cases s) auto
  then show ?case
  proof cases
    case (1 e t)
    have "valid_utf8 ([escaped e] @ unquote t)" if "e \<noteq> CHR ''u''" "e \<in> set escape_letters"
      using 2(4) [OF 1 that] by (intro valid_utf8_sequence escaped_sequence that(2)) simp_all
    moreover have "valid_utf8 (unquote (c # s))" if u: "e = CHR ''u''" "hex4 t = Some r" for r
    proof (cases "IsSurrogate r")
      case True
      show ?thesis
      proof (cases "surrogate_pair r (getu4 (drop 4 t))")
        case None
        with 1 u True valid_utf8_front(2) [OF 2(1) [OF 1 u True None]] show ?thesis by simp
      next
        case (Some p)
        with 1 u True valid_utf8_front(1) [OF 2(2) [OF 1 u True Some]] show ?thesis by simp
      qed
    next
      case False
      with 1 u valid_utf8_front(1) [OF 2(3) [OF 1 u False]] show ?thesis by simp
    qed
    ultimately show ?thesis using 1 by (cases "e = CHR ''u''"; cases "hex4 t") (simp_all del: valid_utf8.simps(2))
  next
    case 3
    have "valid_utf8 (take (rune_len (c # s)) (c # s) @ unquote (drop (rune_len (c # s)) (c # s)))"
      if "rune_len (c # s) \<noteq> 0" "\<not> (c = CHR 0x22 \<or> c < CHR '' '')"
      using 3 that 2(6) rune_len_take [of "c # s"] rune_len_le [of "c # s"]
      by (intro valid_utf8_sequence) simp_all
    then show ?thesis using 3 2(5) valid_utf8_front(2) by (auto simp del: valid_utf8.simps(2))
  qed simp
qed simp

section \<open>Unescaped sequences\<close>

lemma less_space: "c < CHR '' '' \<longleftrightarrow> byte c < 32"
  by (simp add: less_char_def)

lemma sequence_high:
  "two_bytes a b \<Longrightarrow> 0x80 \<le> byte a \<and> 0x80 \<le> byte b"
  "three_bytes a b c \<Longrightarrow> 0x80 \<le> byte a \<and> 0x80 \<le> byte b \<and> 0x80 \<le> byte c"
  "four_bytes a b c d \<Longrightarrow> 0x80 \<le> byte a \<and> 0x80 \<le> byte b \<and> 0x80 \<le> byte c \<and> 0x80 \<le> byte d"
  by (auto simp: sequence_defs)

lemma rune_high:
  assumes "1 < rune_len s" and "c \<in> set (take (rune_len s) s)"
  shows "0x80 \<le> byte c"
  using assms
  by (cases s rule: rune_len.cases) (auto simp: numeral_eq_Suc split: if_splits dest!: sequence_high [simplified numeral_eq_Suc])

lemma rune_one: "rune_len (c # s) = 1 \<longleftrightarrow> byte c < 0x80"
  by (cases "c # s" rule: rune_len.cases) (auto simp: between_def split: if_splits)

text \<open>A whole sequence of several bytes is kept.\<close>

lemma unquote_sequence:
  assumes "rune_len q = length q" and "q \<noteq> []" and "\<forall>c \<in> set q. 0x80 \<le> byte c"
  shows "unquote (q @ t) = q @ unquote t"
proof -
  have len: "rune_len (q @ t) = length q" using assms rune_len_append [of q t] by simp
  obtain b bs where b: "q = b # bs" using assms(2) by (cases q) auto
  then have "b \<noteq> CHR 0x5C" "b \<noteq> CHR 0x22" "\<not> b < CHR '' ''" using assms(3) by (auto simp: less_space)
  with len assms(2) show ?thesis unfolding b by simp
qed

end
