(* ===== verification/Go_Strconv.thy ===== *)
theory Go_Strconv
  imports Prelude
begin

text \<open>
  \<^verbatim>\<open>strconv.ParseInt\<close> in base 10 for a given number of bits, which \<^verbatim>\<open>cmd/replicactl\<close> uses for a typed
  count and \<^verbatim>\<open>encoding/json\<close> for a number in a request body, and the decimal numerals it reads.
\<close>

section \<open>ParseInt\<close>

datatype num_error = ErrSyntax | ErrRange

definition digit_value :: "char \<Rightarrow> int option" where
  "digit_value c = (if 48 \<le> (of_char c :: int) \<and> of_char c \<le> (57 :: int) then Some (of_char c - 48) else None)"

text \<open>\<^verbatim>\<open>ParseUint\<close>: it stops at the first invalid digit or when the value is too large.\<close>

fun ParseUint :: "nat \<Rightarrow> int \<Rightarrow> string \<Rightarrow> num_error + int" where
  "ParseUint bits acc [] = Inr acc"
| "ParseUint bits acc (c # cs) = (case digit_value c of
       None \<Rightarrow> Inl ErrSyntax
     | Some d \<Rightarrow> if acc * 10 + d \<ge> 2 ^ bits then Inl ErrRange else ParseUint bits (acc * 10 + d) cs)"

text \<open>Base 10 admits no prefix and no underscore; the range is that of signed integers of the width.\<close>

definition ParseInt :: "nat \<Rightarrow> string \<Rightarrow> num_error + int" where
  "ParseInt bits s =
     (if s = [] then Inl ErrSyntax
      else let neg = (hd s = CHR ''-''); body = (if hd s = CHR ''+'' \<or> hd s = CHR ''-'' then tl s else s) in
        if body = [] then Inl ErrSyntax
        else (case ParseUint bits 0 body of
            Inl err \<Rightarrow> Inl err
          | Inr n \<Rightarrow>
              if \<not> neg \<and> n \<ge> 2 ^ (bits - 1) \<or> neg \<and> n > 2 ^ (bits - 1) then Inl ErrRange
              else Inr (if neg then - n else n)))"

section \<open>Decimal numerals\<close>

text \<open>The canonical numeral of a natural number and of an integer.\<close>

fun decimal :: "nat \<Rightarrow> string" where
  "decimal n = (if n < 10 then [char_of (48 + n)] else decimal (n div 10) @ [char_of (48 + n mod 10)])"

declare decimal.simps [simp del]

definition canonical :: "int \<Rightarrow> string" where
  "canonical i = (if i < 0 then CHR ''-'' # decimal (nat (- i)) else decimal (nat i))"

lemma digit_value_char [simp]:
  fixes d :: nat
  assumes "d < 10"
  shows "digit_value (char_of (48 + d)) = Some (int d)"
proof -
  have "(of_char (char_of (48 + d) :: char) :: int) = int (of_char (char_of (48 + d) :: char))" by (simp only: of_nat_of_char)
  also have "(of_char (char_of (48 + d) :: char) :: nat) = 48 + d" using assms by simp
  finally show ?thesis using assms by (simp add: digit_value_def)
qed

lemma ParseUint_append:
  "ParseUint bits acc (xs @ ys) = (case ParseUint bits acc xs of Inl e \<Rightarrow> Inl e | Inr n \<Rightarrow> ParseUint bits n ys)"
  by (induction xs arbitrary: acc) (auto split: option.split)

lemma parse_decimal:
  "4 \<le> bits \<Longrightarrow> ParseUint bits 0 (decimal n) = (if int n < 2 ^ bits then Inr (int n) else Inl ErrRange)"
proof (induction n rule: decimal.induct)
  case (1 n)
  show ?case
  proof (cases "n < 10")
    case True
    have "(16 :: int) \<le> 2 ^ bits" using 1(2) power_increasing [of 4 bits "2 :: int"] by simp
    moreover have "int n < 10" using True by simp
    ultimately have "int n < 2 ^ bits" by linarith
    moreover have "decimal n = [char_of (48 + n)]" using True by (subst decimal.simps) simp
    ultimately show ?thesis using True by simp
  next
    case False
    moreover have "int (n div 10) * 10 + int (n mod 10) = int n" by presburger
    moreover have "int (n div 10) \<le> int n" by simp
    ultimately show ?thesis using 1 by (subst decimal.simps) (auto simp: ParseUint_append)
  qed
qed

lemma decimal_start: "\<exists>d cs. (d :: nat) < 10 \<and> decimal n = char_of (48 + d) # cs"
proof (induction n rule: decimal.induct)
  case (1 n)
  show ?case
  proof (cases "n < 10")
    case True
    then show ?thesis by (subst decimal.simps) auto
  next
    case False
    then show ?thesis using 1 by (subst decimal.simps) auto
  qed
qed

lemma decimal_not_sign: "decimal n \<noteq> []" "hd (decimal n) \<noteq> CHR ''-''" "hd (decimal n) \<noteq> CHR ''+''"
proof -
  obtain d :: nat and cs where d: "d < 10" "decimal n = char_of (48 + d) # cs" using decimal_start by blast
  define c :: char where "c = char_of (48 + d)"
  have "(of_char c :: nat) = 48 + d" using d(1) by (simp add: c_def)
  moreover have "(of_char (CHR ''-'') :: nat) = 45" "(of_char (CHR ''+'') :: nat) = 43" by simp_all
  ultimately have "c \<noteq> CHR ''-''" "c \<noteq> CHR ''+''" by force+
  with d show "decimal n \<noteq> []" "hd (decimal n) \<noteq> CHR ''-''" "hd (decimal n) \<noteq> CHR ''+''" by (simp_all add: c_def)
qed

text \<open>The numeral of every integer of the width parses to it; any other integer is a range error.\<close>

lemma ParseInt_canonical:
  assumes "4 \<le> bits"
  shows "ParseInt bits (canonical i) = (if - (2 ^ (bits - 1)) \<le> i \<and> i < 2 ^ (bits - 1) then Inr i else Inl ErrRange)"
proof -
  define h :: int where "h = 2 ^ (bits - 1)"
  have h: "2 ^ bits = 2 * h" "2 ^ (bits - 1) = h" "2 ^ (bits - Suc 0) = h" "2 ^ 3 \<le> h"
    using assms power_Suc [of "2 :: int" "bits - 1"] power_increasing [of 3 "bits - 1" "2 :: int"] by (simp_all add: h_def)
  show ?thesis
  proof (cases "i < 0")
    case True
    then show ?thesis using h(4)
      by (auto simp: ParseInt_def canonical_def parse_decimal [OF assms] decimal_not_sign h(1,2,3))
  next
    case False
    then show ?thesis using h(4)
      by (auto simp: ParseInt_def canonical_def Let_def parse_decimal [OF assms] decimal_not_sign h(1,2,3))
  qed
qed

lemma ParseInt_range:
  assumes "ParseInt bits s = Inr i"
  shows "- (2 ^ (bits - 1)) \<le> i \<and> i < 2 ^ (bits - 1)"
proof -
  have nonneg: "0 \<le> acc \<Longrightarrow> ParseUint bits acc t = Inr n \<Longrightarrow> 0 \<le> n" for acc t n
  proof (induction t arbitrary: acc)
    case (Cons c t)
    then obtain d where d: "digit_value c = Some d" "ParseUint bits (acc * 10 + d) t = Inr n" by (auto split: option.splits if_splits)
    then have "0 \<le> d" by (auto simp: digit_value_def split: if_splits)
    with Cons.prems(1) show ?case by (intro Cons.IH [OF _ d(2)]) simp
  qed simp
  have "\<exists>t n. ParseUint bits 0 t = Inr n \<and> (i = n \<and> n < 2 ^ (bits - 1) \<or> i = - n \<and> n \<le> 2 ^ (bits - 1))"
    using assms unfolding ParseInt_def Let_def by (auto simp: not_le not_less split: if_splits sum.splits)
  then obtain t n where n: "ParseUint bits 0 t = Inr n" "i = n \<and> n < 2 ^ (bits - 1) \<or> i = - n \<and> n \<le> 2 ^ (bits - 1)" by blast
  moreover have "0 \<le> n" using nonneg [OF _ n(1)] by simp
  moreover have "(0 :: int) < 2 ^ (bits - 1)" by simp
  ultimately show ?thesis by linarith
qed

end
