(* ===== verification/Go_Encode.thy ===== *)
theory Go_Encode
  imports Json_Grammar Go_Unquote Go_Strconv
begin

text \<open>
  The encoder of Go's \<^verbatim>\<open>encoding/json\<close> as \<^verbatim>\<open>internal/httpapi\<close> uses it for responses: strings are quoted with the HTML
  characters and the two Unicode line separators escaped, and bytes that are not UTF-8 become the
  escaped replacement character. The text of every value is proved a document of the grammar, and reading
  it back yields the value.
\<close>

section \<open>Values and their text\<close>

datatype jvalue =
    JString string
  | JInt int
  | JBool bool
  | JObject "(string \<times> jvalue) list"
  | JArray "jvalue list"

definition hex_digit :: "nat \<Rightarrow> char" where
  "hex_digit d = char_of (if d < 10 then 48 + d else 87 + d)"

definition escape_number :: "nat \<Rightarrow> string" where
  "escape_number n = [CHR 0x5C, CHR ''u'', CHR ''0'', CHR ''0'', hex_digit (n div 16), hex_digit (n mod 16)]"

text \<open>An ASCII byte in \<^verbatim>\<open>appendString\<close>.\<close>

definition escape_byte :: "char \<Rightarrow> string" where
  "escape_byte c =
     (if c = CHR 0x22 \<or> c = CHR 0x5C then [CHR 0x5C, c]
      else if c = CHR 0x08 then [CHR 0x5C, CHR ''b'']
      else if c = CHR 0x0C then [CHR 0x5C, CHR ''f'']
      else if c = CHR 0x0A then [CHR 0x5C, CHR ''n'']
      else if c = CHR 0x0D then [CHR 0x5C, CHR ''r'']
      else if c = CHR 0x09 then [CHR 0x5C, CHR ''t'']
      else if byte c < 32 \<or> c = CHR ''<'' \<or> c = CHR ''>'' \<or> c = CHR ''&'' then escape_number (byte c)
      else [c])"

text \<open>A sequence of several bytes.\<close>

definition escape_sequence :: "string \<Rightarrow> string" where
  "escape_sequence q =
     (if q = [CHR 0xE2, CHR 0x80, CHR 0xA8] then CHR 0x5C # ''u2028''
      else if q = [CHR 0xE2, CHR 0x80, CHR 0xA9] then CHR 0x5C # ''u2029''
      else q)"

function (sequential) appendString :: "string \<Rightarrow> string" where
  "appendString [] = []"
| "appendString (c # s) =
     (if byte c < 0x80 then escape_byte c @ appendString s
      else if rune_len (c # s) = 0 then CHR 0x5C # ''ufffd'' @ appendString s
      else escape_sequence (take (rune_len (c # s)) (c # s)) @ appendString (drop (rune_len (c # s)) (c # s)))"
  by pat_completeness auto
termination by (relation "measure length") auto

fun commas :: "string list \<Rightarrow> string" where
  "commas [] = []"
| "commas [x] = x"
| "commas (x # xs) = x @ CHR '','' # commas xs"

fun encode :: "jvalue \<Rightarrow> string" where
  "encode (JString s) = quoted (appendString s)"
| "encode (JInt i) = canonical i"
| "encode (JBool b) = (if b then ''true'' else ''false'')"
| "encode (JObject ms) = CHR ''{'' # commas (map (\<lambda>(k, v). quoted (appendString k) @ CHR '':'' # encode v) ms) @ ''}''"
| "encode (JArray vs) = CHR ''['' # commas (map encode vs) @ '']''"

text \<open>\<^verbatim>\<open>Encoder.Encode\<close>: the text and a line break.\<close>

definition Encode :: "jvalue \<Rightarrow> string" where
  "Encode v = encode v @ [CHR 0x0A]"

section \<open>The text is JSON\<close>

text \<open>Canonical numerals are numbers of the grammar.\<close>

lemma digit_chars:
  fixes d :: nat
  assumes "d < 10"
  shows "isDigit (char_of (48 + d)) \<and> (char_of (48 + d) = CHR ''0'' \<longleftrightarrow> d = 0)"
proof -
  have "list_all (\<lambda>d :: nat. isDigit (char_of (48 + d)) \<and> (char_of (48 + d) = CHR ''0'' \<longleftrightarrow> d = 0)) [0..<10]" by code_simp
  with assms show ?thesis by (simp add: list_all_iff)
qed

lemma decimal_positive:
  assumes "0 < n"
  shows "\<exists>d ds. decimal n = d # ds \<and> isDigit d \<and> d \<noteq> CHR ''0'' \<and> digits ds"
  using assms
proof (induction n rule: decimal.induct)
  case (1 n)
  show ?case
  proof (cases "n < 10")
    case True
    with 1(2) digit_chars [OF True] show ?thesis by (subst decimal.simps) simp
  next
    case False
    with 1(1) obtain d ds where "decimal (n div 10) = d # ds" "isDigit d" "d \<noteq> CHR ''0''" "digits ds" by fastforce
    with False digit_chars [of "n mod 10"] show ?thesis by (subst decimal.simps) simp
  qed
qed

lemma canonical_number: "number_text (canonical i)"
proof -
  have "int_text (decimal n)" for n
    using decimal_positive [of n] digit_chars [of 0] by (cases "n = 0") (auto simp: int_text_def decimal.simps [of 0])
  then have "mantissa (canonical i)" by (auto simp: mantissa_def canonical_def)
  from number_textI [OF this frac_exp_empty] show ?thesis by simp
qed

text \<open>The value the text stands for, with its literals.\<close>

fun json_of :: "jvalue \<Rightarrow> json" where
  "json_of (JString s) = Str (appendString s)"
| "json_of (JInt i) = Num (canonical i)"
| "json_of (JBool b) = Bool b"
| "json_of (JObject ms) = Obj (map (\<lambda>(k, v). (appendString k, json_of v)) ms)"
| "json_of (JArray vs) = Arr (map json_of vs)"

lemma string_text_append: "string_text t \<Longrightarrow> string_text s \<Longrightarrow> string_text (s @ t)"
proof (induction t rule: string_text.induct)
  case (plain t c)
  then show ?case using string_text.plain [of "s @ t" c] by simp
next
  case (escape t c)
  then show ?case using string_text.escape [of "s @ t" c] by simp
next
  case (unicode t h)
  then show ?case using string_text.unicode [of "s @ t" h] by simp
qed simp

lemma string_text_one:
  "c \<noteq> CHR 0x22 \<Longrightarrow> c \<noteq> CHR 0x5C \<Longrightarrow> CHR '' '' \<le> c \<Longrightarrow> string_text [c]"
  "e \<in> set (''bfnrt/'' @ [CHR 0x5C, CHR 0x22]) \<Longrightarrow> string_text [CHR 0x5C, e]"
  "length h = 4 \<Longrightarrow> list_all isHex h \<Longrightarrow> string_text (CHR 0x5C # CHR ''u'' # h)"
  using string_text.plain [OF string_text.empty, of c] string_text.escape [OF string_text.empty, of e]
    string_text.unicode [OF string_text.empty, of h] by simp_all

lemma hex_digit_facts:
  assumes "d < 16"
  shows "isHex (hex_digit d) \<and> hex_value (hex_digit d) = d"
proof -
  have "list_all (\<lambda>d. isHex (hex_digit d) \<and> hex_value (hex_digit d) = d) [0..<16]" by code_simp
  with assms show ?thesis by (simp add: list_all_iff)
qed

lemma zero_hex: "isHex (CHR ''0'')" "hex_value (CHR ''0'') = 0"
  by code_simp+

lemma escape_number_text:
  assumes "n < 256"
  shows "string_text (escape_number n)"
proof -
  have "n div 16 < 16" "n mod 16 < 16" using assms by simp_all
  then show ?thesis unfolding escape_number_def by (intro string_text_one(3)) (simp_all add: hex_digit_facts zero_hex)
qed

lemma byte_less_256 [simp]: "byte c < 256"
  by simp

lemma escape_letters_text:
  "string_text [CHR 0x5C, CHR 0x22]" "string_text [CHR 0x5C, CHR 0x5C]" "string_text [CHR 0x5C, CHR ''b'']" "string_text [CHR 0x5C, CHR ''f'']"
  "string_text [CHR 0x5C, CHR ''n'']" "string_text [CHR 0x5C, CHR ''r'']" "string_text [CHR 0x5C, CHR ''t'']"
  by (rule string_text_one(2); simp)+

lemma escape_byte_text: "string_text (escape_byte c)"
proof -
  have "string_text [c]" if "c \<noteq> CHR 0x22" "c \<noteq> CHR 0x5C" "\<not> byte c < 32"
    using that less_space [of c] by (intro string_text_one(1)) (simp_all add: not_less)
  with escape_number_text [of "byte c"] escape_letters_text show ?thesis unfolding escape_byte_def by simp
qed

lemma high_text: "\<forall>c \<in> set q. 0x80 \<le> byte c \<Longrightarrow> string_text q"
proof (induction q rule: rev_induct)
  case (snoc c q)
  then have "c \<noteq> CHR 0x22" "c \<noteq> CHR 0x5C" "CHR '' '' \<le> c" by (auto simp: less_space not_less [symmetric])
  with snoc show ?case by (auto intro: string_text.plain)
qed (rule string_text.empty)

lemma escape_sequence_text: "\<forall>c \<in> set q. 0x80 \<le> byte c \<Longrightarrow> string_text (escape_sequence q)"
proof -
  assume high: "\<forall>c \<in> set q. 0x80 \<le> byte c"
  have "list_all isHex ''2028''" "list_all isHex ''2029''" by code_simp+
  then show ?thesis using high_text [OF high] string_text_one(3) [of "''2028''"] string_text_one(3) [of "''2029''"]
    by (simp add: escape_sequence_def)
qed

lemma appendString_text: "string_text (appendString s)"
proof (induction s rule: appendString.induct)
  case (2 c s)
  have "list_all isHex ''fffd''" by code_simp
  then have bad: "string_text ((CHR 0x5C # ''ufffd'') @ appendString s)" if "string_text (appendString s)"
    using that string_text_one(3) [of "''fffd''"] by (intro string_text_append) simp_all
  show ?case
  proof (cases "byte c < 0x80")
    case True
    with 2(1) show ?thesis by (simp add: string_text_append escape_byte_text)
  next
    case False
    have "\<forall>b \<in> set (take (rune_len (c # s)) (c # s)). 0x80 \<le> byte b" if "rune_len (c # s) \<noteq> 0"
      using rune_high [of "c # s"] rune_one [of c s] False that by (cases "rune_len (c # s) = 1") auto
    with False 2(2,3) bad show ?thesis by (auto intro!: string_text_append escape_sequence_text)
  qed
qed (simp add: string_text.empty)

lemma snoc_commas: "xs \<noteq> [] \<Longrightarrow> commas (xs @ [x]) = commas xs @ CHR '','' # x"
  by (induction xs rule: commas.induct) (auto simp: neq_Nil_conv)

lemma elements_text:
  assumes "vs \<noteq> []" and "\<forall>v \<in> set vs. value_text (f v) (g v)"
  shows "elements (map f vs) (commas (map g vs))"
  using assms
proof (induction vs rule: rev_nonempty_induct)
  case (single v)
  then show ?case using value_text_elements_members.one_element [of "[]" "f v" "g v" "[]"] by simp
next
  case (snoc v vs)
  then show ?case
    using value_text_elements_members.more_elements [of "map f vs" "commas (map g vs)" "[]" "f v" "g v" "[]"]
    by (simp add: snoc_commas)
qed

lemma members_encode:
  assumes "ms \<noteq> []" and "\<forall>(k, v) \<in> set ms. value_text (f v) (g v)"
  shows "members (map (\<lambda>(k, v). (appendString k, f v)) ms) (commas (map (\<lambda>(k, v). quoted (appendString k) @ CHR '':'' # g v) ms))"
  using assms
proof (induction ms rule: rev_nonempty_induct)
  case (single m)
  obtain k v where m: "m = (k, v)" by (cases m)
  with single show ?case
    using value_text_elements_members.one_member [of "[]" "appendString k" "[]" "[]" "f v" "g v" "[]"] by (simp add: appendString_text)
next
  case (snoc m ms)
  obtain k v where m: "m = (k, v)" by (cases m)
  let ?f = "\<lambda>(k, v). (appendString k, f v)" and ?g = "\<lambda>(k, v). quoted (appendString k) @ CHR '':'' # g v"
  from snoc m show ?case
    using value_text_elements_members.more_members [of "map ?f ms" "commas (map ?g ms)" "[]" "appendString k" "[]" "[]" "f v" "g v" "[]"]
    by (simp add: snoc_commas appendString_text)
qed

lemma encode_text: "value_text (json_of j) (encode j)"
proof (induction j rule: encode.induct)
  case (2 i)
  show ?case by (simp add: value_text_elements_members.number canonical_number)
next
  case (3 b)
  show ?case by (cases b) (auto intro: value_text_elements_members.intros)
next
  case (4 ms)
  then have "members (map (\<lambda>(k, v). (appendString k, json_of v)) ms) (commas (map (\<lambda>(k, v). quoted (appendString k) @ CHR '':'' # encode v) ms))"
    if "ms \<noteq> []" using that by (intro members_encode) auto
  then show ?case
    using value_text_elements_members.empty_object [of "[]"] by (cases "ms = []") (auto intro: value_text_elements_members.object)
next
  case (5 vs)
  then have "elements (map json_of vs) (commas (map encode vs))" if "vs \<noteq> []" using that by (intro elements_text) auto
  then show ?case
    using value_text_elements_members.empty_array [of "[]"] by (cases "vs = []") (auto intro: value_text_elements_members.array)
qed (simp add: value_text_elements_members.str appendString_text)

theorem Encode_document: "json_document v (Encode j) \<longleftrightarrow> v = json_of j"
proof -
  have "json_document (json_of j) (Encode j)"
    unfolding json_document_def Encode_def using encode_text [of j] by (intro exI [of _ "[]"] exI [of _ "encode j"] exI [of _ "[CHR 0x0A]"]) (simp add: isSpace_def)
  then show ?thesis using document_unique by blast
qed

section \<open>Reading back\<close>

text \<open>A text with every byte that is not part of UTF-8 replaced.\<close>

function (sequential) coerced :: "string \<Rightarrow> string" where
  "coerced [] = []"
| "coerced (c # s) =
     (if rune_len (c # s) = 0 then ReplacementChar @ coerced s
      else take (rune_len (c # s)) (c # s) @ coerced (drop (rune_len (c # s)) (c # s)))"
  by pat_completeness auto
termination by (relation "measure length") auto

lemma coerced_valid: "valid_utf8 s \<Longrightarrow> coerced s = s"
  by (induction s rule: valid_utf8.induct) (auto simp del: take_Suc_Cons drop_Suc_Cons split: if_splits)

lemma unquote_escape_number:
  assumes "byte c < 0x80"
  shows "unquote (escape_number (byte c) @ t) = c # unquote t"
proof -
  have "byte c mod 16 < 16" "byte c div 16 * 16 + byte c mod 16 = byte c" by simp_all
  moreover have "byte c div 16 < 16" using assms by simp
  ultimately have "hex4 (CHR ''0'' # CHR ''0'' # hex_digit (byte c div 16) # hex_digit (byte c mod 16) # t) = Some (byte c)"
    by (simp add: zero_hex hex_digit_facts)
  moreover have "EncodeRune (byte c) = [c]" using assms by (simp add: EncodeRune_def)
  moreover have "\<not> IsSurrogate (byte c)" using assms by (simp add: IsSurrogate_def)
  ultimately show ?thesis by (simp add: escape_number_def)
qed

lemma unquote_letter:
  assumes "e \<in> set escape_letters" and "e \<noteq> CHR ''u''"
  shows "unquote (CHR 0x5C # e # t) = escaped e # unquote t"
  using assms by simp

lemma unquote_escape_byte:
  assumes "byte c < 0x80"
  shows "unquote (escape_byte c @ t) = c # unquote t"
proof -
  have letters: "unquote (CHR 0x5C # CHR 0x22 # t) = CHR 0x22 # unquote t" "unquote (CHR 0x5C # CHR 0x5C # t) = CHR 0x5C # unquote t"
    "unquote (CHR 0x5C # CHR ''b'' # t) = CHR 0x08 # unquote t" "unquote (CHR 0x5C # CHR ''f'' # t) = CHR 0x0C # unquote t"
    "unquote (CHR 0x5C # CHR ''n'' # t) = CHR 0x0A # unquote t" "unquote (CHR 0x5C # CHR ''r'' # t) = CHR 0x0D # unquote t"
    "unquote (CHR 0x5C # CHR ''t'' # t) = CHR 0x09 # unquote t"
    by (subst unquote_letter; simp add: escape_letters_def escaped_def)+
  have plain: "unquote (c # t) = c # unquote t" if "c \<noteq> CHR 0x22" "c \<noteq> CHR 0x5C" "\<not> byte c < 32"
  proof -
    have "rune_len (c # t) = 1" using assms rune_one by blast
    moreover have "\<not> c < CHR '' ''" using that(3) by (simp add: less_space)
    ultimately show ?thesis using that(1,2) by simp
  qed
  show ?thesis unfolding escape_byte_def using letters plain unquote_escape_number [OF assms] by (simp del: unquote.simps)
qed

lemma unquote_numbers:
  "unquote (CHR 0x5C # ''ufffd'' @ t) = ReplacementChar @ unquote t"
  "unquote (CHR 0x5C # ''u2028'' @ t) = [CHR 0xE2, CHR 0x80, CHR 0xA8] @ unquote t"
  "unquote (CHR 0x5C # ''u2029'' @ t) = [CHR 0xE2, CHR 0x80, CHR 0xA9] @ unquote t"
proof -
  have run: "unquote (CHR 0x5C # CHR ''u'' # h @ t) = EncodeRune r @ unquote t" if "length h = 4" "hex4 (h @ t) = Some r" "\<not> IsSurrogate r" for h r
    using that by simp
  have "hex4 (''fffd'' @ t) = Some 0xFFFD" "hex4 (''2028'' @ t) = Some 0x2028" "hex4 (''2029'' @ t) = Some 0x2029"
    by (simp_all add: isHex_def isDigit_def hex_value_def between_def)
  moreover have "\<not> IsSurrogate 0xFFFD" "\<not> IsSurrogate 0x2028" "\<not> IsSurrogate 0x2029" by (simp_all add: IsSurrogate_def)
  moreover have "char_of (0xEF :: nat) = CHR 0xEF" "char_of (0xBF :: nat) = CHR 0xBF" "char_of (0xBD :: nat) = CHR 0xBD"
    "char_of (0xE2 :: nat) = CHR 0xE2" "char_of (0x80 :: nat) = CHR 0x80" "char_of (0xA8 :: nat) = CHR 0xA8" "char_of (0xA9 :: nat) = CHR 0xA9"
    by code_simp+
  then have "EncodeRune 0xFFFD = ReplacementChar" "EncodeRune 0x2028 = [CHR 0xE2, CHR 0x80, CHR 0xA8]"
    "EncodeRune 0x2029 = [CHR 0xE2, CHR 0x80, CHR 0xA9]" by (simp_all add: EncodeRune_def)
  ultimately show "unquote (CHR 0x5C # ''ufffd'' @ t) = ReplacementChar @ unquote t"
    "unquote (CHR 0x5C # ''u2028'' @ t) = [CHR 0xE2, CHR 0x80, CHR 0xA8] @ unquote t"
    "unquote (CHR 0x5C # ''u2029'' @ t) = [CHR 0xE2, CHR 0x80, CHR 0xA9] @ unquote t"
    using run [of "''fffd''" "0xFFFD"] run [of "''2028''" "0x2028"] run [of "''2029''" "0x2029"] by (simp_all del: unquote.simps hex4.simps)
qed

theorem unquote_appendString: "unquote (appendString s) = coerced s"
proof (induction s rule: appendString.induct)
  case (2 c s)
  let ?n = "rune_len (c # s)"
  show ?case
  proof (cases "byte c < 0x80")
    case True
    with 2(1) rune_one [of c s] show ?thesis by (simp add: unquote_escape_byte del: unquote.simps)
  next
    case False
    show ?thesis
    proof (cases "?n = 0")
      case True
      with False 2(2) unquote_numbers(1) show ?thesis by (simp del: unquote.simps)
    next
      case n: False
      let ?q = "take ?n (c # s)"
      have "?n \<noteq> 1" using False rune_one by blast
      with n have high: "\<forall>b \<in> set ?q. 0x80 \<le> byte b" using rune_high [of "c # s"] by auto
      have q: "rune_len ?q = length ?q" "?q \<noteq> []" using rune_len_take [OF n] rune_len_le [of "c # s"] n by auto
      have "unquote (escape_sequence ?q @ t) = ?q @ unquote t" for t
        unfolding escape_sequence_def using unquote_sequence [OF q high] unquote_numbers(2,3) by (simp del: unquote.simps take_Suc_Cons)
      with False n 2(3) show ?thesis by (simp del: unquote.simps take_Suc_Cons drop_Suc_Cons)
    qed
  qed
qed simp

text \<open>What a reader makes of a JSON value: strings unquoted, numbers as 64-bit integers. Null and numbers that
  are not such integers do not occur in responses.\<close>

fun read_json :: "json \<Rightarrow> jvalue option" where
  "read_json (Str raw) = Some (JString (unquote raw))"
| "read_json (Num n) = (case ParseInt 64 n of Inl _ \<Rightarrow> None | Inr i \<Rightarrow> Some (JInt i))"
| "read_json (Bool b) = Some (JBool b)"
| "read_json (Obj ms) = map_option JObject (those (map (\<lambda>(k, v). map_option (Pair (unquote k)) (read_json v)) ms))"
| "read_json (Arr vs) = map_option JArray (those (map read_json vs))"
| "read_json Null = None"

text \<open>The values with valid strings and integers.\<close>

fun clean :: "jvalue \<Rightarrow> bool" where
  "clean (JString s) = valid_utf8 s"
| "clean (JInt i) = (- (2 ^ 63) \<le> i \<and> i < 2 ^ 63)"
| "clean (JBool b) = True"
| "clean (JObject ms) = list_all (\<lambda>(k, v). valid_utf8 k \<and> clean v) ms"
| "clean (JArray vs) = list_all clean vs"

lemma those_map: "(\<And>x. x \<in> set xs \<Longrightarrow> f x = Some (g x)) \<Longrightarrow> those (map f xs) = Some (map g xs)"
  by (induction xs) simp_all

lemma read_json_of: "clean j \<Longrightarrow> read_json (json_of j) = Some j"
proof (induction j rule: json_of.induct)
  case (1 s)
  then show ?case by (simp add: unquote_appendString coerced_valid)
next
  case (2 i)
  then show ?case using ParseInt_canonical [of 64 i] by simp
next
  case (4 ms)
  have "those (map (\<lambda>m. map_option (Pair (unquote (appendString (fst m)))) (read_json (json_of (snd m)))) ms) = Some (map id ms)"
  proof (rule those_map)
    fix m
    assume m: "m \<in> set ms"
    then have "clean (snd m)" "valid_utf8 (fst m)" using "4.prems" by (auto simp: list_all_iff)
    with "4.IH" [OF m prod.collapse] show "map_option (Pair (unquote (appendString (fst m)))) (read_json (json_of (snd m))) = Some (id m)"
      by (simp add: unquote_appendString coerced_valid)
  qed
  then show ?case by (simp add: o_def split_def)
next
  case (5 vs)
  then have "those (map (\<lambda>v. read_json (json_of v)) vs) = Some (map id vs)" by (intro those_map) (auto simp: list_all_iff)
  then show ?case by (simp add: o_def)
qed simp

end
