(* ===== verification/Set_Request.thy ===== *)
theory Set_Request
  imports Go_Encode Model
begin

text \<open>
  The decoding of a PUT body in \<^verbatim>\<open>internal/httpapi/http.go\<close>: \<^verbatim>\<open>Decode\<close> of one JSON value into
  \<^verbatim>\<open>model.SetRequest\<close> with \<^verbatim>\<open>DisallowUnknownFields\<close>, and the second \<^verbatim>\<open>Decode\<close> that must find the end.
  Members are stored in order, so of several members for a field the last one counts; a name is
  looked up exactly and then by \<^verbatim>\<open>encoding/json\<close>'s folding of case. An error of a member is kept and
  returned after the others were stored, where the request is of no further use, so the model returns it at once.
\<close>

section \<open>Fields\<close>

definition upper :: "char \<Rightarrow> char" where
  "upper c = (if CHR ''a'' \<le> c \<and> c \<le> CHR ''z'' then char_of (byte c - 32) else c)"

text \<open>
  \<^verbatim>\<open>foldName\<close>: ASCII letters in upper case, and the two further characters that fold to ASCII letters
  (the long s and the Kelvin sign). Other characters fold to characters outside ASCII, which occur in no
  field name, and are kept here.
\<close>

fun foldName :: "string \<Rightarrow> string" where
  "foldName [] = []"
| "foldName (c # s) =
     (if c = CHR 0xC5 \<and> take 1 s = [CHR 0xBF] then CHR ''S'' # foldName (drop 1 s)
      else if c = CHR 0xE2 \<and> take 2 s = [CHR 0x84, CHR 0xAA] then CHR ''K'' # foldName (drop 2 s)
      else upper c # foldName s)"

datatype field = ReplicasField | ExpectedVersionField

definition lookup_field :: "string \<Rightarrow> field option" where
  "lookup_field key =
     (if key = ''replicas'' then Some ReplicasField
      else if key = ''expectedVersion'' then Some ExpectedVersionField
      else if foldName key = ''REPLICAS'' then Some ReplicasField
      else if foldName key = ''EXPECTEDVERSION'' then Some ExpectedVersionField
      else None)"

section \<open>Storing values\<close>

text \<open>\<^verbatim>\<open>*int32\<close>: null clears the pointer; a number must be an integer literal in the range of 32 bits.\<close>

fun store_replicas :: "json \<Rightarrow> set_request \<Rightarrow> decode_error + set_request" where
  "store_replicas Null req = Inr (req\<lparr>rq_Replicas := None\<rparr>)"
| "store_replicas (Num n) req = (case ParseInt 64 n of
       Inl _ \<Rightarrow> Inl UnmarshalError
     | Inr i \<Rightarrow> if - (2 ^ 31) \<le> i \<and> i < 2 ^ 31 then Inr (req\<lparr>rq_Replicas := Some (word_of_int i)\<rparr>) else Inl UnmarshalError)"
| "store_replicas _ req = Inl UnmarshalError"

text \<open>\<^verbatim>\<open>string\<close>: null changes nothing.\<close>

fun store_version :: "json \<Rightarrow> set_request \<Rightarrow> decode_error + set_request" where
  "store_version Null req = Inr req"
| "store_version (Str raw) req = Inr (req\<lparr>rq_ExpectedVersion := unquote raw\<rparr>)"
| "store_version _ req = Inl UnmarshalError"

definition store_member :: "string \<Rightarrow> json \<Rightarrow> set_request \<Rightarrow> decode_error + set_request" where
  "store_member key v req = (case lookup_field (unquote key) of
       Some ReplicasField \<Rightarrow> store_replicas v req
     | Some ExpectedVersionField \<Rightarrow> store_version v req
     | None \<Rightarrow> Inl UnmarshalError)"

fun store_members :: "(string \<times> json) list \<Rightarrow> set_request \<Rightarrow> decode_error + set_request" where
  "store_members [] req = Inr req"
| "store_members ((key, v) # ms) req = (case store_member key v req of Inl err \<Rightarrow> Inl err | Inr req' \<Rightarrow> store_members ms req')"

definition zero_request :: set_request where
  "zero_request = \<lparr>rq_Replicas = None, rq_ExpectedVersion = []\<rparr>"

text \<open>Into a struct: null changes nothing, an object is stored, any other value is an error.\<close>

fun unmarshal :: "json \<Rightarrow> decode_error + set_request" where
  "unmarshal (Obj ms) = store_members ms zero_request"
| "unmarshal Null = Inr zero_request"
| "unmarshal _ = Inl UnmarshalError"

section \<open>The two calls of Decode\<close>

definition maxBodyBytes :: nat where
  "maxBodyBytes = 4096"

definition Decode :: "stream \<Rightarrow> decode_error + set_request \<times> stream" where
  "Decode s = (case next_value s of
       Inl err \<Rightarrow> Inl err
     | Inr (v, rest) \<Rightarrow> map_sum id (\<lambda>req. (req, rest)) (unmarshal v))"

text \<open>Into \<^verbatim>\<open>struct{}\<close>, which has no fields: the error, or \<^const>\<open>None\<close> for a value stored without one.\<close>

definition Decode_empty :: "stream \<Rightarrow> decode_error option" where
  "Decode_empty s = (case next_value s of
       Inl err \<Rightarrow> Some err
     | Inr (v, _) \<Rightarrow> if v = Null \<or> v = Obj [] then None else Some UnmarshalError)"

text \<open>What the PUT handler makes of the body: the error it reports (\<^const>\<open>None\<close> is a nil error that was
  expected to be \<^verbatim>\<open>io.EOF\<close>), or the request.\<close>

definition decode_body :: "stream \<Rightarrow> decode_error option + set_request" where
  "decode_body body = (case Decode (MaxBytesReader maxBodyBytes body) of
       Inl err \<Rightarrow> Inl (Some err)
     | Inr (req, rest) \<Rightarrow> let err = Decode_empty rest in if err \<noteq> Some (Read EOF) then Inl err else Inr req)"

section \<open>Facts\<close>

lemma decode_body_iff:
  "decode_body body = Inr req \<longleftrightarrow>
     length (st_bytes body) \<le> maxBodyBytes \<and> st_end body = EOF \<and> (\<exists>v. json_document v (st_bytes body) \<and> unmarshal v = Inr req)"
  (is "?l \<longleftrightarrow> ?r")
proof -
  define s where "s = MaxBytesReader maxBodyBytes body"
  have "?l \<longleftrightarrow> (\<exists>v rest. readValue (st_end s) [] StateBeginValue [] (st_bytes s) = Inr (v, rest) \<and> unmarshal v = Inr req \<and>
      readValue (st_end s) [] StateBeginValue [] rest = Inl (Read EOF))"
    unfolding decode_body_def s_def [symmetric]
    by (auto simp: Decode_def Decode_empty_def next_value_def Let_def map_sum_id_iff split: sum.split prod.split)
  also have "\<dots> \<longleftrightarrow> st_end s = EOF \<and> (\<exists>v. json_document v (st_bytes s) \<and> unmarshal v = Inr req)"
    unfolding readValue_eof document_scanned by auto
  also have "\<dots> \<longleftrightarrow> ?r" by (auto simp: s_def MaxBytesReader_def)
  finally show ?thesis .
qed

text \<open>The limit is reported only where it was hit.\<close>

lemma readValue_error: "readValue e buf st stk bs = Inl (Read e') \<Longrightarrow> e' = e"
  by (induction bs arbitrary: buf st stk) (auto split: scanned.splits if_splits)

lemma decode_body_limit:
  assumes "decode_body body = Inl (Some (Read MaxBytesError))" and "st_end body \<noteq> MaxBytesError"
  shows "4096 < length (st_bytes body)"
proof -
  let ?s = "MaxBytesReader maxBodyBytes body"
  have store: "unmarshal v \<noteq> Inl (Read e)" for v e
  proof (cases v)
    case (Obj ms)
    have "store_members ms req \<noteq> Inl (Read e)" for req
    proof (induction ms req rule: store_members.induct)
      case (2 key v ms req)
      have "store_member key v req \<noteq> Inl (Read e)"
        by (cases v) (auto simp: store_member_def split: option.split field.split sum.split)
      with 2 show ?case by (auto split: sum.split)
    qed simp
    with Obj show ?thesis by simp
  qed simp_all
  have "st_end ?s = MaxBytesError"
    using assms(1) store
    by (auto simp: decode_body_def Decode_def Decode_empty_def next_value_def Let_def map_sum_id_iff
        split: sum.splits prod.splits if_splits dest: readValue_error)
  with assms(2) show ?thesis by (auto simp: MaxBytesReader_def maxBodyBytes_def split: if_splits)
qed

text \<open>Only members for the version change it, and they store valid UTF-8.\<close>

lemma store_members_utf8:
  assumes "store_members ms req = Inr req'" and "valid_utf8 (rq_ExpectedVersion req)"
  shows "valid_utf8 (rq_ExpectedVersion req')"
  using assms
proof (induction ms req rule: store_members.induct)
  case (2 key v ms req)
  from 2(2) obtain req1 where req1: "store_member key v req = Inr req1" "store_members ms req1 = Inr req'"
    by (auto split: sum.splits)
  have "valid_utf8 (rq_ExpectedVersion req1)"
    using req1(1) 2(3) by (cases v) (auto simp: store_member_def unquote_valid split: option.splits field.splits sum.splits if_splits)
  with 2(1) req1 show ?case by blast
qed simp

lemma unmarshal_utf8: "unmarshal v = Inr req \<Longrightarrow> valid_utf8 (rq_ExpectedVersion req)"
  by (cases v) (auto simp: zero_request_def intro: store_members_utf8)

section \<open>The text of a request\<close>

text \<open>A request as a client writes it.\<close>

definition request_json :: "set_request \<Rightarrow> jvalue" where
  "request_json req = JObject (
     (case rq_Replicas req of None \<Rightarrow> [] | Some n \<Rightarrow> [(''replicas'', JInt (sint n))]) @
     (if rq_ExpectedVersion req = [] then [] else [(''expectedVersion'', JString (rq_ExpectedVersion req))]))"

definition request_text :: "set_request \<Rightarrow> string" where
  "request_text req = encode (request_json req)"

lemma request_document:
  assumes "spaces w" and "spaces w'"
  shows "json_document (json_of (request_json req)) (w @ request_text req @ w')"
  unfolding json_document_def request_text_def using assms encode_text by blast

lemma store_names: "store_member ''replicas'' = store_replicas" "store_member ''expectedVersion'' = store_version"
proof -
  have "lookup_field (unquote ''replicas'') = Some ReplicasField"
    "lookup_field (unquote ''expectedVersion'') = Some ExpectedVersionField" by code_simp+
  then show "store_member ''replicas'' = store_replicas" "store_member ''expectedVersion'' = store_version"
    by (simp_all only: store_member_def [abs_def] option.case field.case)
qed

lemma parse_count: "ParseInt 64 (canonical (sint (n :: int32))) = Inr (sint n)"
  using int32_range [of n] ParseInt_canonical [of 64 "sint n"] by simp

lemma unmarshal_request:
  assumes "valid_utf8 (rq_ExpectedVersion req)"
  shows "unmarshal (json_of (request_json req)) = Inr req"
proof -
  have "appendString ''replicas'' = ''replicas''" "appendString ''expectedVersion'' = ''expectedVersion''" by code_simp+
  then show ?thesis
    using assms int32_range
    by (cases req)
       (auto simp: request_json_def zero_request_def store_names parse_count unquote_appendString coerced_valid simp del: appendString.simps split: option.split)
qed

section \<open>Number literals\<close>

lemma digit_valueD: "digit_value c = Some d \<Longrightarrow> 0 \<le> d \<and> d < 10 \<and> c = char_of (48 + nat d)"
proof -
  assume "digit_value c = Some d"
  then have d: "48 \<le> (of_char c :: int)" "(of_char c :: int) \<le> 57" "d = of_char c - 48" by (auto simp: digit_value_def split: if_splits)
  have "(of_char c :: int) = int (byte c)" by (simp only: of_nat_of_char)
  with d have "48 + nat d = byte c" by linarith
  then have "char_of (48 + nat d) = c" by simp
  with d show ?thesis by simp
qed

lemma parse_inverse:
  assumes "ParseUint bits 0 s = Inr v" and "s \<noteq> []" and "hd s \<noteq> CHR ''0'' \<or> length s = 1"
  shows "0 \<le> v \<and> s = decimal (nat v)"
  using assms
proof (induction s arbitrary: v rule: rev_induct)
  case (snoc c s)
  obtain u d where u: "ParseUint bits 0 s = Inr u" "digit_value c = Some d" "v = u * 10 + d"
    using snoc(2) by (auto simp: ParseUint_append split: sum.splits option.splits if_splits)
  note d = digit_valueD [OF u(2)]
  show ?case
  proof (cases "s = []")
    case True
    with u(1,3) d show ?thesis by (subst decimal.simps) auto
  next
    case False
    with snoc(4) have "hd s \<noteq> CHR ''0''" by (cases s) auto
    with snoc.IH [OF u(1) False] have s: "0 \<le> u" "s = decimal (nat u)" by auto
    have "u \<noteq> 0" using \<open>hd s \<noteq> CHR ''0''\<close> s(2) digit_chars [of 0] by (auto simp: decimal.simps [of 0])
    moreover have "nat v = nat u * 10 + nat d" using u(3) s(1) d by linarith
    ultimately have "\<not> nat v < 10" "nat v div 10 = nat u" "nat v mod 10 = nat d" "0 \<le> v" using u(3) s(1) d by auto
    with s(2) d show ?thesis by (subst decimal.simps) simp
  qed
qed simp

lemma count_literal:
  assumes "number_text n" and "ParseInt 64 n = Inr i"
  shows "n = canonical i \<or> n = ''-0'' \<and> i = 0"
proof -
  from assms(1) obtain m j f x where m: "n = m @ f @ x" "m = j \<or> m = CHR ''-'' # j" "int_text j" "frac_text f" "exp_text x"
    unfolding number_text_def mantissa_def by blast
  define neg where "neg = (m = CHR ''-'' # j)"
  with m have n: "n = (if neg then CHR ''-'' # j else j) @ f @ x" "int_text j" "frac_text f" "exp_text x" by auto
  have j: "j \<noteq> []" "hd j \<noteq> CHR ''-''" "hd j \<noteq> CHR ''+''" "hd j \<noteq> CHR ''0'' \<or> length j = 1"
    using n(2) by (auto simp: int_text_def isDigit_def)
  have sign: "(hd n = CHR ''-'') = neg" "n \<noteq> []" and body: "(if hd n = CHR ''+'' \<or> hd n = CHR ''-'' then tl n else n) = j @ f @ x"
    using n(1) j by auto
  obtain v where v: "ParseUint 64 0 (j @ f @ x) = Inr v" "i = (if neg then - v else v)"
  proof (cases "ParseUint 64 0 (j @ f @ x)")
    case (Inl e)
    with assms(2) sign show thesis unfolding ParseInt_def Let_def body by (simp split: if_splits)
  next
    case (Inr u)
    with that [of u] assms(2) sign show thesis unfolding ParseInt_def Let_def body by (simp split: if_splits)
  qed
  have "f @ x = []"
  proof (rule ccontr)
    assume "f @ x \<noteq> []"
    then obtain c cs where c: "f @ x = c # cs" "c = CHR ''.'' \<or> c = CHR ''e'' \<or> c = CHR ''E''"
      using n(3,4) by (auto simp: frac_text_def exp_text_def)
    then have "digit_value c = None" by (auto simp: digit_value_def)
    with v(1) c(1) show False by (auto simp: ParseUint_append split: sum.splits)
  qed
  with v(1) parse_inverse [of 64 j v] j have "0 \<le> v" "j = decimal (nat v)" by auto
  with n(1) v(2) \<open>f @ x = []\<close> show ?thesis using digit_chars [of 0] by (auto simp: canonical_def decimal.simps [of 0])
qed

section \<open>Properties\<close>

text \<open>
  C13. A body is taken as a request exactly if it has at most 4096 bytes, was read to its end, and is one JSON
  document by the grammar, whose value stores without error; the request is what was stored. In
  particular a second value, a cut-off or oversized body and an unknown field are refused.
\<close>

theorem body_decoded:
  "decode_body body = Inr req \<longleftrightarrow>
     length (st_bytes body) \<le> 4096 \<and> st_end body = EOF \<and> (\<exists>v. json_document v (st_bytes body) \<and> unmarshal v = Inr req)"
  using decode_body_iff [of body req] by (simp add: maxBodyBytes_def)

text \<open>
  C30. Every request has a text: written out as JSON, with any space around it and within the size limit, a request
  with a valid UTF-8 version decodes to itself.
\<close>

theorem request_roundtrip:
  assumes "valid_utf8 (rq_ExpectedVersion req)" and "spaces w" and "spaces w'" and "length (w @ request_text req @ w') \<le> 4096"
  shows "decode_body \<lparr>st_bytes = w @ request_text req @ w', st_end = EOF\<rparr> = Inr req"
  unfolding decode_body_iff
  using assms request_document [OF assms(2,3), of req] unmarshal_request [OF assms(1)] by (auto simp: maxBodyBytes_def)

definition sample_request :: set_request where
  "sample_request = \<lparr>rq_Replicas = Some 4, rq_ExpectedVersion = ''a\"b'' @ [CHR 0xC3, CHR 0xA9]\<rparr>"

theorem request_roundtrip_witness:
  "decode_body \<lparr>st_bytes = '' '' @ request_text sample_request @ [CHR 0x0A], st_end = EOF\<rparr> = Inr sample_request"
  by (rule request_roundtrip) code_simp+

text \<open>
  Decoding yields well-formed requests: whatever bytes a body holds, the version of a decoded request is
  valid UTF-8.
\<close>

lemma version_utf8:
  assumes "decode_body body = Inr req"
  shows "valid_utf8 (rq_ExpectedVersion req)"
  using assms unmarshal_utf8 unfolding decode_body_iff by blast

text \<open>
  C31. Counts are exact: a JSON number is stored as a count exactly if it is the integer numeral of that 32-bit count
  (zero also as -0); fractions, exponents and numbers out of range are refused, never rounded or wrapped.
\<close>

theorem count_exact:
  assumes "number_text n"
  shows "unmarshal (Obj [(''replicas'', Num n)]) = Inr \<lparr>rq_Replicas = Some c, rq_ExpectedVersion = []\<rparr> \<longleftrightarrow>
    n = canonical (sint c) \<or> n = ''-0'' \<and> c = 0"
proof -
  have "unmarshal (Obj [(''replicas'', Num n)]) = Inr \<lparr>rq_Replicas = Some c, rq_ExpectedVersion = []\<rparr> \<longleftrightarrow>
      (\<exists>i. ParseInt 64 n = Inr i \<and> - (2 ^ 31) \<le> i \<and> i < 2 ^ 31 \<and> word_of_int i = c)"
    by (auto simp: store_names zero_request_def split: sum.split)
  also have "\<dots> \<longleftrightarrow> ParseInt 64 n = Inr (sint c)"
    using int32_range [of c] by (auto simp: sint_word_of_int32)
  also have "\<dots> \<longleftrightarrow> n = canonical (sint c) \<or> n = ''-0'' \<and> c = 0"
  proof -
    have "ParseInt 64 ''-0'' = Inr 0" by code_simp
    moreover have "sint c = 0 \<longleftrightarrow> c = 0" using sint_eq [of c 0] by simp
    ultimately show ?thesis using count_literal [OF assms] parse_count [of c] by auto
  qed
  finally show ?thesis .
qed

theorem count_exact_witness:
  "unmarshal (Obj [(''replicas'', Num ''12'')]) = Inr \<lparr>rq_Replicas = Some 12, rq_ExpectedVersion = []\<rparr> \<and>
   unmarshal (Obj [(''replicas'', Num ''12.0'')]) \<noteq> Inr \<lparr>rq_Replicas = Some 12, rq_ExpectedVersion = []\<rparr>"
proof -
  have "int_text ''12''" by (auto simp: int_text_def isDigit_def)
  then have "mantissa ''12''" by (auto simp: mantissa_def)
  moreover have "frac_text ''.0''" by (simp add: frac_text_def isDigit_def)
  ultimately have "number_text ''12''" "number_text ''12.0''"
    using number_textI [of "''12''" "[]" "[]"] number_textI [of "''12''" "''.0''" "[]"] by simp_all
  moreover have "canonical (sint (12 :: int32)) = ''12''" by code_simp
  ultimately show ?thesis using count_exact [of "''12''" 12] count_exact [of "''12.0''" 12] by simp
qed

end
