(* ===== verification/Go_Mime.thy ===== *)
theory Go_Mime
  imports Go_Unquote
begin

text \<open>
  \<^verbatim>\<open>mime.ParseMediaType\<close> of Go's standard library, as the PUT handler of \<^verbatim>\<open>internal/httpapi\<close> uses it: the
  media type of a \<^verbatim>\<open>Content-Type\<close> header, or an error for a malformed type or parameter. The handler
  discards the parameters, so only their form and their duplicates matter here.
\<close>

section \<open>White space and letters\<close>

text \<open>The length of the white space character (\<^verbatim>\<open>unicode.IsSpace\<close>, in UTF-8) at the start of a text; 0 for none.\<close>

fun space_len :: "string \<Rightarrow> nat" where
  "space_len [] = 0"
| "space_len (a # s) =
     (if a \<in> {CHR 0x09, CHR 0x0A, CHR 0x0B, CHR 0x0C, CHR 0x0D, CHR '' ''} then 1
      else if a = CHR 0xC2 \<and> (take 1 s = [CHR 0x85] \<or> take 1 s = [CHR 0xA0]) then 2
      else if a # take 2 s \<in> {[CHR 0xE1, CHR 0x9A, CHR 0x80], [CHR 0xE2, CHR 0x80, CHR 0xA8], [CHR 0xE2, CHR 0x80, CHR 0xA9],
          [CHR 0xE2, CHR 0x80, CHR 0xAF], [CHR 0xE2, CHR 0x81, CHR 0x9F], [CHR 0xE3, CHR 0x80, CHR 0x80]} then 3
      else if a = CHR 0xE2 \<and> take 1 s = [CHR 0x80] \<and> list_all (\<lambda>c. between 0x80 c 0x8A) (take 1 (drop 1 s)) \<and> 2 \<le> length s then 3
      else 0)"

function trimLeft :: "string \<Rightarrow> string" where
  "trimLeft s = (if space_len s = 0 then s else trimLeft (drop (space_len s) s))"
  by pat_completeness auto
termination
proof (relation "measure length")
  fix s :: string
  assume "space_len s \<noteq> 0"
  then show "(drop (space_len s) s, s) \<in> measure length" by (cases s) auto
qed simp

declare trimLeft.simps [simp del]

text \<open>The end is trimmed by the last one, two or three bytes as long as they are a white space character.\<close>

definition space_tail :: "string \<Rightarrow> nat" where
  "space_tail s = (let tail = (\<lambda>n. n \<le> length s \<and> space_len (drop (length s - n) s) = n) in
     if tail 1 then 1 else if tail 2 then 2 else if tail 3 then 3 else 0)"

function trimRight :: "string \<Rightarrow> string" where
  "trimRight s = (if space_tail s = 0 then s else trimRight (take (length s - space_tail s) s))"
  by pat_completeness auto
termination
proof (relation "measure length")
  fix s :: string
  assume "space_tail s \<noteq> 0"
  then show "(take (length s - space_tail s) s, s) \<in> measure length"
    by (auto simp: space_tail_def Let_def split: if_splits)
qed simp

declare trimRight.simps [simp del]

definition TrimSpace :: "string \<Rightarrow> string" where
  "TrimSpace s = trimRight (trimLeft s)"

text \<open>
  \<^verbatim>\<open>strings.ToLower\<close>: ASCII letters, and the two further letters whose lower case is ASCII (the dotted I and
  the Kelvin sign). Other letters stay outside ASCII and are kept; a media type with one is refused.
\<close>

fun ToLower :: "string \<Rightarrow> string" where
  "ToLower [] = []"
| "ToLower (c # s) =
     (if c = CHR 0xC4 \<and> take 1 s = [CHR 0xB0] then CHR ''i'' # ToLower (drop 1 s)
      else if c = CHR 0xE2 \<and> take 2 s = [CHR 0x84, CHR 0xAA] then CHR ''k'' # ToLower (drop 2 s)
      else (if between 65 c 90 then char_of (byte c + 32) else c) # ToLower s)"

section \<open>Tokens and parameters\<close>

definition isTSpecial :: "char \<Rightarrow> bool" where
  "isTSpecial c \<longleftrightarrow> c \<in> set (''()<>@,;:/[]?='' @ [CHR 0x5C, CHR 0x22])"

definition isTokenChar :: "char \<Rightarrow> bool" where
  "isTokenChar c \<longleftrightarrow> between 0x21 c 0x7E \<and> \<not> isTSpecial c"

definition consumeToken :: "string \<Rightarrow> string \<times> string" where
  "consumeToken v = (takeWhile isTokenChar v, dropWhile isTokenChar v)"

text \<open>\<^verbatim>\<open>checkMediaTypeDisposition\<close>: a token, or two with a slash.\<close>

definition checkMediaTypeDisposition :: "string \<Rightarrow> bool" where
  "checkMediaTypeDisposition s = (case consumeToken s of
       (typ, rest) \<Rightarrow>
         if typ = [] then False
         else if rest = [] then True
         else if hd rest \<noteq> CHR ''/'' then False
         else (case consumeToken (tl rest) of (subtype, rest') \<Rightarrow> subtype \<noteq> [] \<and> rest' = []))"

text \<open>A quoted string after its opening quote; \<^const>\<open>None\<close> if it does not end or holds a line break.\<close>

fun quoted_value :: "string \<Rightarrow> string \<Rightarrow> (string \<times> string) option" where
  "quoted_value buf [] = None"
| "quoted_value buf [c] = (if c = CHR 0x22 then Some (buf, []) else None)"
| "quoted_value buf (c # d # v) =
     (if c = CHR 0x22 then Some (buf, d # v)
      else if c = CHR 0x5C \<and> isTSpecial d then quoted_value (buf @ [d]) v
      else if c = CHR 0x0D \<or> c = CHR 0x0A then None
      else quoted_value (buf @ [c]) (d # v))"

definition consumeValue :: "string \<Rightarrow> string \<times> string" where
  "consumeValue v =
     (if v = [] then ([], [])
      else if hd v \<noteq> CHR 0x22 then consumeToken v
      else (case quoted_value [] (tl v) of Some r \<Rightarrow> r | None \<Rightarrow> ([], v)))"

text \<open>\<^verbatim>\<open>consumeMediaParam\<close>: name, value and rest of a parameter with its semicolon; \<^const>\<open>None\<close> where the code
  returns an empty name and the unchanged text.\<close>

definition consumeMediaParam :: "string \<Rightarrow> (string \<times> string \<times> string) option" where
  "consumeMediaParam v =
     (let rest = trimLeft v in
      if rest = [] \<or> hd rest \<noteq> CHR '';'' then None
      else (case consumeToken (trimLeft (tl rest)) of
          (param, rest1) \<Rightarrow>
            let rest2 = trimLeft rest1 in
            if param = [] then None
            else if rest2 = [] \<or> hd rest2 \<noteq> CHR ''='' then None
            else let rest3 = trimLeft (tl rest2) in
              (case consumeValue rest3 of
                 (value, rest4) \<Rightarrow> if value = [] \<and> rest4 = rest3 then None else Some (ToLower param, value, rest4))))"

lemma trimLeft_length: "length (trimLeft s) \<le> length s"
proof (induction s rule: trimLeft.induct)
  case (1 s)
  show ?case
  proof (cases "space_len s = 0")
    case True
    then show ?thesis by (simp add: trimLeft.simps [of s])
  next
    case False
    have "length (trimLeft s) \<le> length (drop (space_len s) s)" using 1 [OF False] False by (simp only: trimLeft.simps [of s] if_False)
    then show ?thesis by simp
  qed
qed

lemma quoted_value_length: "quoted_value buf v = Some (value, rest) \<Longrightarrow> length rest \<le> length v"
  by (induction buf v rule: quoted_value.induct) (auto split: if_splits)

lemma consumeToken_length: "consumeToken v = (t, rest) \<Longrightarrow> length rest \<le> length v"
  by (auto simp: consumeToken_def length_dropWhile_le)

lemma consumeValue_length:
  assumes "consumeValue v = (value, rest)"
  shows "length rest \<le> length v"
proof -
  have "length rest \<le> length (tl v)" if "quoted_value [] (tl v) = Some (value, rest)" using quoted_value_length [OF that] .
  with assms show ?thesis by (auto simp: consumeValue_def split: if_splits option.splits dest: consumeToken_length)
qed

lemma consumeMediaParam_length:
  assumes "consumeMediaParam v = Some (param, value, rest)"
  shows "length rest < length v"
proof -
  obtain r0 r1 r2 p where r: "trimLeft v = CHR '';'' # r0" "consumeToken (trimLeft r0) = (p, r1)" "trimLeft r1 = CHR ''='' # r2"
    "consumeValue (trimLeft r2) = (value, rest)"
    using assms
    by (cases "trimLeft v"; cases "consumeToken (trimLeft (tl (trimLeft v)))"; cases "trimLeft (snd (consumeToken (trimLeft (tl (trimLeft v)))))")
      (auto simp: consumeMediaParam_def Let_def split: if_splits prod.splits)
  have "length rest \<le> length r2" using consumeValue_length [OF r(4)] trimLeft_length [of r2] by simp
  also have "\<dots> < length r1" using trimLeft_length [of r1] r(3) by simp
  also have "\<dots> \<le> length r0" using consumeToken_length [OF r(2)] trimLeft_length [of r0] by simp
  also have "\<dots> < length v" using trimLeft_length [of v] r(1) by simp
  finally show ?thesis .
qed

text \<open>
  The loop over the parameters: whether it ends without an error. \<open>seen\<close> are the parameters so far; the code keeps those whose name
  holds an asterisk in maps of their own, one per text before the asterisk, which changes no lookup by
  the whole name. A name may come twice only with the same value.
\<close>

function parse_params :: "(string \<times> string) list \<Rightarrow> string \<Rightarrow> bool" where
  "parse_params seen v0 =
     (let v = trimLeft v0 in
      if v = [] then True
      else (case consumeMediaParam v of
          None \<Rightarrow> TrimSpace v = '';''
        | Some (key, value, rest) \<Rightarrow>
            (case map_of seen key of
               Some old \<Rightarrow> if old \<noteq> value then False else parse_params ((key, value) # seen) rest
             | None \<Rightarrow> parse_params ((key, value) # seen) rest)))"
  by pat_completeness auto
termination
proof (relation "measure (\<lambda>(seen, v). length v)")
qed (auto dest!: consumeMediaParam_length intro: less_le_trans [OF _ trimLeft_length])

declare parse_params.simps [simp del]

text \<open>\<^verbatim>\<open>ParseMediaType\<close>: the media type, \<^const>\<open>None\<close> for any error.\<close>

definition ParseMediaType :: "string \<Rightarrow> string option" where
  "ParseMediaType v =
     (let base = takeWhile (\<lambda>c. c \<noteq> CHR '';'') v; mediatype = TrimSpace (ToLower base) in
      if \<not> checkMediaTypeDisposition mediatype then None
      else if parse_params [] (drop (length base) v) then Some mediatype
      else None)"

section \<open>Well-formed headers\<close>

text \<open>Parameters of tokens with pairwise different names are accepted after a media type.\<close>

definition token :: "string \<Rightarrow> bool" where
  "token s \<longleftrightarrow> s \<noteq> [] \<and> list_all isTokenChar s"

definition format_params :: "(string \<times> string) list \<Rightarrow> string" where
  "format_params ps = concat (map (\<lambda>(k, v). ''; '' @ k @ ''='' @ v) ps)"

lemma space_len_visible:
  assumes "between 0x21 c 0x7E"
  shows "space_len (c # s) = 0"
proof -
  have "c \<notin> {CHR 0x09, CHR 0x0A, CHR 0x0B, CHR 0x0C, CHR 0x0D, CHR '' '', CHR 0xC2, CHR 0xE1, CHR 0xE2, CHR 0xE3}"
    using assms by (auto simp: between_def)
  then show ?thesis by simp
qed

lemma trimLeft_visible: "between 0x21 c 0x7E \<Longrightarrow> trimLeft (c # s) = c # s"
  by (simp add: trimLeft.simps [of "c # s"] space_len_visible del: space_len.simps)

lemma trimLeft_space: "trimLeft (CHR '' '' # s) = trimLeft s"
  by (simp add: trimLeft.simps [of "CHR '' '' # s"])

lemma trimLeft_Nil [simp]: "trimLeft [] = []"
  by (simp add: trimLeft.simps)

lemma token_start: "token t \<Longrightarrow> \<exists>c s. t = c # s \<and> between 0x21 c 0x7E \<and> c \<noteq> CHR 0x22"
  by (cases t) (auto simp: token_def isTokenChar_def isTSpecial_def)

lemma trimLeft_token:
  assumes "token t"
  shows "trimLeft (t @ s) = t @ s"
proof -
  obtain c t' where "t = c # t'" "between 0x21 c 0x7E" using token_start [OF assms] by blast
  then show ?thesis by (simp add: trimLeft_visible)
qed

lemma consumeToken_token:
  assumes "token t" and "s = [] \<or> \<not> isTokenChar (hd s)"
  shows "consumeToken (t @ s) = (t, s)"
  using assms by (cases s) (auto simp: consumeToken_def token_def list_all_iff)

lemma separators: "\<not> isTokenChar (CHR '';'')" "\<not> isTokenChar (CHR ''='')" "between 0x21 (CHR '';'') 0x7E" "between 0x21 (CHR ''='') 0x7E"
  by code_simp+

lemma consumeMediaParam_token:
  assumes "token k" and "token v" and "s = [] \<or> hd s = CHR '';''"
  shows "consumeMediaParam (''; '' @ k @ ''='' @ v @ s) = Some (ToLower k, v, s)"
proof -
  have "trimLeft (CHR '';'' # CHR '' '' # k @ CHR ''='' # v @ s) = CHR '';'' # CHR '' '' # k @ CHR ''='' # v @ s"
    by (rule trimLeft_visible) (rule separators)
  moreover have "consumeToken (k @ CHR ''='' # v @ s) = (k, CHR ''='' # v @ s)"
    by (rule consumeToken_token) (use assms separators in auto)
  moreover have "trimLeft (CHR ''='' # v @ s) = CHR ''='' # v @ s" by (rule trimLeft_visible) (rule separators)
  moreover have "consumeValue (v @ s) = (v, s)"
  proof -
    have "consumeToken (v @ s) = (v, s)" by (rule consumeToken_token) (use assms separators in auto)
    with token_start [OF assms(2)] show ?thesis by (auto simp: consumeValue_def)
  qed
  ultimately show ?thesis
    using assms(1,2) by (auto simp: consumeMediaParam_def trimLeft_space trimLeft_token token_def)
qed

lemma parse_params_format:
  assumes "list_all (\<lambda>(k, v). token k \<and> token v) ps" and "distinct (map (ToLower \<circ> fst) ps)"
    and "\<forall>k \<in> set (map (ToLower \<circ> fst) ps). map_of seen k = None"
  shows "parse_params seen (format_params ps)"
  using assms
proof (induction ps arbitrary: seen)
  case Nil
  then show ?case by (simp add: parse_params.simps [of seen] format_params_def)
next
  case (Cons p ps)
  obtain k v where p: "p = (k, v)" by (cases p)
  have rest: "format_params ps = [] \<or> hd (format_params ps) = CHR '';''" by (cases ps) (auto simp: format_params_def)
  have shape: "format_params (p # ps) = ''; '' @ k @ ''='' @ v @ format_params ps" by (simp add: format_params_def p)
  have trim: "trimLeft (format_params (p # ps)) = format_params (p # ps)"
    unfolding shape using trimLeft_visible [OF separators(3)] by simp
  have param: "consumeMediaParam (format_params (p # ps)) = Some (ToLower k, v, format_params ps)"
    unfolding shape using Cons.prems(1) rest by (intro consumeMediaParam_token) (simp_all add: p)
  have "parse_params ((ToLower k, v) # seen) (format_params ps)"
    using Cons.prems by (intro Cons.IH) (force simp: p)+
  moreover have "format_params (p # ps) \<noteq> []" by (simp add: shape)
  moreover have "map_of seen (ToLower k) = None" using Cons.prems(3) by (simp add: p)
  ultimately show ?case
    by (subst parse_params.simps) (simp add: trim param)
qed

lemma ParseMediaType_json:
  assumes "list_all (\<lambda>(k, v). token k \<and> token v) ps" and "distinct (map (ToLower \<circ> fst) ps)"
  shows "ParseMediaType (''application/json'' @ format_params ps) = Some ''application/json''"
proof -
  have base: "takeWhile (\<lambda>c. c \<noteq> CHR '';'') (''application/json'' @ format_params ps) = ''application/json''"
    by (cases ps) (auto simp: format_params_def)
  have "TrimSpace (ToLower ''application/json'') = ''application/json''" "checkMediaTypeDisposition ''application/json''" by code_simp+
  moreover have "parse_params [] (format_params ps)" by (rule parse_params_format) (use assms in auto)
  moreover have "drop (length ''application/json'') (''application/json'' @ format_params ps) = format_params ps" by simp
  ultimately show ?thesis unfolding ParseMediaType_def base Let_def by (simp only: if_True not_True_eq_False if_False)
qed

end
