(* ===== verification/Go_Url.thy ===== *)
theory Go_Url
  imports Go_Unquote
begin

text \<open>
  What \<^verbatim>\<open>net/http\<close> and \<^verbatim>\<open>net/url\<close> do to a request before a handler of \<^verbatim>\<open>internal/httpapi\<close> sees it: the mux cleans the
  escaped path and splits it into unescaped segments, and \<^verbatim>\<open>URL.Query\<close> parses the query.
\<close>

section \<open>Escapes\<close>

text \<open>\<^verbatim>\<open>unescape\<close>; in a query, a plus sign is a space.\<close>

fun unescape :: "bool \<Rightarrow> string \<Rightarrow> string option" where
  "unescape query [] = Some []"
| "unescape query (c # s) =
     (if c = CHR ''%'' then
        (case s of
           a # b # t \<Rightarrow> if isHex a \<and> isHex b then map_option (Cons (char_of (hex_value a * 16 + hex_value b))) (unescape query t) else None
         | _ \<Rightarrow> None)
      else map_option (Cons (if query \<and> c = CHR ''+'' then CHR '' '' else c)) (unescape query s))"

text \<open>\<^verbatim>\<open>pathUnescape\<close> of the mux keeps a segment that is not well escaped.\<close>

definition pathUnescape :: "string \<Rightarrow> string" where
  "pathUnescape s = (case unescape False s of Some u \<Rightarrow> u | None \<Rightarrow> s)"

section \<open>Paths\<close>

text \<open>The elements \<^verbatim>\<open>path.Clean\<close> keeps of a rooted path, in reverse while it goes on.\<close>

fun clean_elements :: "string list \<Rightarrow> string list \<Rightarrow> string list" where
  "clean_elements acc [] = rev acc"
| "clean_elements acc (e # es) =
     (if e = [] \<or> e = ''.'' then clean_elements acc es
      else if e = ''..'' then clean_elements (tl acc) es
      else clean_elements (e # acc) es)"

definition path_Clean :: "string \<Rightarrow> string" where
  "path_Clean p = CHR ''/'' # join_on (CHR ''/'') (clean_elements [] (split_on (CHR ''/'') (tl p)))"

definition cleanPath :: "string \<Rightarrow> string" where
  "cleanPath p =
     (if p = [] then ''/''
      else let p1 = (if hd p \<noteq> CHR ''/'' then CHR ''/'' # p else p); np = path_Clean p1 in
        if last p1 = CHR ''/'' \<and> np \<noteq> ''/'' then np @ ''/'' else np)"

definition path_segments :: "string \<Rightarrow> string list" where
  "path_segments p = map pathUnescape (split_on (CHR ''/'') (tl p))"

section \<open>Queries\<close>

text \<open>One part of a query; \<^const>\<open>None\<close> where \<^verbatim>\<open>parseQuery\<close> passes over it.\<close>

definition query_pair :: "string \<Rightarrow> (string \<times> string) option" where
  "query_pair part =
     (if CHR '';'' \<in> set part \<or> part = [] then None
      else (case unescape True (takeWhile (\<lambda>c. c \<noteq> CHR ''='') part) of
          None \<Rightarrow> None
        | Some key \<Rightarrow> map_option (Pair key) (unescape True (drop 1 (dropWhile (\<lambda>c. c \<noteq> CHR ''='') part)))))"

text \<open>\<^verbatim>\<open>URL.Query\<close>: the values in order; a query of more than 10000 parts is refused as a whole.\<close>

definition query_values :: "string \<Rightarrow> (string \<times> string) list" where
  "query_values q =
     (if q = [] then []
      else let parts = split_on (CHR ''&'') q in
        if int (length parts) > 10000 then [] else List.map_filter query_pair parts)"

text \<open>\<^verbatim>\<open>Values.Get\<close>: the first value of a key.\<close>

definition query_get :: "string \<Rightarrow> string \<Rightarrow> string" where
  "query_get q key = (case map_of (query_values q) key of Some v \<Rightarrow> v | None \<Rightarrow> [])"

section \<open>Plain paths and queries\<close>

text \<open>A path of elements without special characters is clean, and its segments are the elements.\<close>

definition plain_element :: "string \<Rightarrow> bool" where
  "plain_element e \<longleftrightarrow> e \<noteq> [] \<and> e \<noteq> ''.'' \<and> e \<noteq> ''..'' \<and> CHR ''/'' \<notin> set e \<and> CHR ''%'' \<notin> set e"

lemma unescape_plain: "CHR ''%'' \<notin> set s \<Longrightarrow> \<not> query \<or> CHR ''+'' \<notin> set s \<Longrightarrow> unescape query s = Some s"
  by (induction s) auto

lemma clean_elements_plain: "list_all plain_element es \<Longrightarrow> clean_elements acc es = rev acc @ es"
  by (induction es arbitrary: acc) (auto simp: plain_element_def)

lemma split_join:
  assumes "es \<noteq> []" and "\<forall>e \<in> set es. c \<notin> set e"
  shows "split_on c (join_on c es) = es"
  using assms by (induction es rule: join_on.induct) simp_all

lemma last_join:
  assumes "es \<noteq> []" and "list_all plain_element es"
  shows "join_on c es \<noteq> [] \<and> last (join_on c es) = last (last es)"
  using assms
proof (induction es rule: rev_induct)
  case (snoc e es)
  have "join_on c (es @ [e]) = (if es = [] then e else join_on c es @ c # e)" by (induction es rule: join_on.induct) simp_all
  moreover have "e \<noteq> []" using snoc.prems by (simp add: plain_element_def)
  ultimately show ?case by simp
qed simp

lemma plain_path:
  assumes "es \<noteq> []" and "list_all plain_element es"
  shows "cleanPath (CHR ''/'' # join_on (CHR ''/'') es) = CHR ''/'' # join_on (CHR ''/'') es"
    and "path_segments (CHR ''/'' # join_on (CHR ''/'') es) = es"
proof -
  have split: "split_on (CHR ''/'') (join_on (CHR ''/'') es) = es"
    by (rule split_join) (use assms in \<open>auto simp: list_all_iff plain_element_def\<close>)
  have end_: "last (last es) \<noteq> CHR ''/''"
  proof -
    have "plain_element (last es)" using assms by (simp add: list_all_iff)
    then show ?thesis unfolding plain_element_def by (metis last_in_set)
  qed
  show "cleanPath (CHR ''/'' # join_on (CHR ''/'') es) = CHR ''/'' # join_on (CHR ''/'') es"
    using last_join [OF assms] end_ by (simp add: cleanPath_def path_Clean_def split clean_elements_plain [OF assms(2)])
  have "pathUnescape e = e" if "e \<in> set es" for e
    using assms(2) that unescape_plain [of e False] by (auto simp: pathUnescape_def list_all_iff plain_element_def)
  then show "path_segments (CHR ''/'' # join_on (CHR ''/'') es) = es" by (simp add: path_segments_def split map_idI)
qed

lemma plain_query:
  assumes "key \<noteq> []" and "set (key @ v) \<inter> {CHR ''%'', CHR ''+'', CHR '';'', CHR ''&'', CHR ''=''} = {}"
  shows "query_get (key @ ''='' @ v) key = v"
proof -
  have "split_on (CHR ''&'') (key @ CHR ''='' # v) = [key @ CHR ''='' # v]" using assms(2) by (intro split_on_fresh) auto
  moreover have "takeWhile (\<lambda>c. c \<noteq> CHR ''='') (key @ CHR ''='' # v) = key" "dropWhile (\<lambda>c. c \<noteq> CHR ''='') (key @ CHR ''='' # v) = CHR ''='' # v"
    using assms(2) by (auto simp: takeWhile_append dropWhile_append)
  moreover have "unescape True key = Some key" "unescape True v = Some v" using assms(2) by (auto intro: unescape_plain)
  ultimately show ?thesis using assms by (auto simp: query_get_def query_values_def query_pair_def List.map_filter_def)
qed

text \<open>Cleaning is idempotent: a redirect leads to a path that is served.\<close>

definition special :: "string \<Rightarrow> bool" where
  "special e \<longleftrightarrow> e = [] \<or> e = ''.'' \<or> e = ''..''"

lemma clean_elements_step:
  "clean_elements acc (e # es) =
     (if special e then clean_elements (if e = ''..'' then tl acc else acc) es else clean_elements (e # acc) es)"
  unfolding special_def clean_elements.simps by simp

lemma clean_elements_kept:
  assumes "\<forall>e \<in> set acc. \<not> special e"
  shows "\<forall>e \<in> set (clean_elements acc es). \<not> special e"
  using assms
proof (induction es arbitrary: acc)
  case (Cons e es)
  have "\<forall>e \<in> set (if e = ''..'' then tl acc else acc). \<not> special e" using Cons.prems by (cases acc) auto
  note front = Cons.IH [OF this]
  show ?case
  proof (cases "special e")
    case True
    with front show ?thesis by (simp only: clean_elements_step if_True)
  next
    case False
    then have "\<forall>x \<in> set (e # acc). \<not> special x" using Cons.prems by simp
    from Cons.IH [OF this] False show ?thesis by (simp only: clean_elements_step if_False)
  qed
qed simp

lemma clean_elements_from: "set (clean_elements acc es) \<subseteq> set acc \<union> set es"
proof (induction es arbitrary: acc)
  case (Cons e es)
  have tl: "set (if e = ''..'' then tl acc else acc) \<subseteq> set acc" by (cases acc) auto
  show ?case
  proof (cases "special e")
    case True
    then have "clean_elements acc (e # es) = clean_elements (if e = ''..'' then tl acc else acc) es" by (simp only: clean_elements_step if_True)
    with Cons.IH [of "if e = ''..'' then tl acc else acc"] tl show ?thesis by fastforce
  next
    case False
    with Cons.IH [of "e # acc"] show ?thesis by (simp add: clean_elements_step del: clean_elements.simps(2))
  qed
qed simp

lemma clean_elements_id: "\<forall>e \<in> set es. \<not> special e \<Longrightarrow> clean_elements acc es = rev acc @ es"
  by (induction es arbitrary: acc) (simp_all add: clean_elements_step del: clean_elements.simps(2))

lemma clean_elements_snoc: "clean_elements acc (es @ [[]]) = clean_elements acc es"
  by (induction acc es rule: clean_elements.induct) simp_all

lemma join_snoc: "es \<noteq> [] \<Longrightarrow> join_on c (es @ [[]]) = join_on c es @ [c]"
  by (induction es rule: join_on.induct) simp_all

lemma path_Clean_again:
  assumes "\<forall>e \<in> set es. \<not> special e \<and> CHR ''/'' \<notin> set e"
  shows "path_Clean (CHR ''/'' # join_on (CHR ''/'') es) = CHR ''/'' # join_on (CHR ''/'') es"
    and "es \<noteq> [] \<Longrightarrow> path_Clean (CHR ''/'' # join_on (CHR ''/'') es @ ''/'') = CHR ''/'' # join_on (CHR ''/'') es"
proof -
  have split: "split_on (CHR ''/'') (join_on (CHR ''/'') es) = es" if "es \<noteq> []" using that assms by (intro split_join) auto
  have split': "split_on (CHR ''/'') (join_on (CHR ''/'') es @ ''/'') = es @ [[]]" if "es \<noteq> []"
    using that assms split_join [of "es @ [[]]" "CHR ''/''"] by (simp add: join_snoc)
  have id: "clean_elements [] es = es" using assms by (simp add: clean_elements_id)
  show "path_Clean (CHR ''/'' # join_on (CHR ''/'') es) = CHR ''/'' # join_on (CHR ''/'') es"
    using split id by (cases "es = []") (simp_all add: path_Clean_def)
  show "path_Clean (CHR ''/'' # join_on (CHR ''/'') es @ ''/'') = CHR ''/'' # join_on (CHR ''/'') es" if "es \<noteq> []"
    using split' [OF that] id by (simp add: path_Clean_def clean_elements_snoc)
qed

lemma last_plain:
  assumes "\<forall>e \<in> set es. \<not> special e \<and> CHR ''/'' \<notin> set e" and "es \<noteq> []"
  shows "last (CHR ''/'' # join_on (CHR ''/'') es) \<noteq> CHR ''/''"
proof -
  obtain es' e where es: "es = es' @ [e]" using assms(2) by (cases es rule: rev_cases) auto
  have "join_on (CHR ''/'') (es' @ [e]) = (if es' = [] then e else join_on (CHR ''/'') es' @ CHR ''/'' # e)"
    by (induction es' rule: join_on.induct) simp_all
  moreover have e: "\<not> special e" "CHR ''/'' \<notin> set e" using assms(1) es by simp_all
  moreover from e(1) have "e \<noteq> []" unfolding special_def by blast
  moreover from this e(2) have "last e \<noteq> CHR ''/''" using last_in_set by metis
  ultimately show ?thesis by (simp add: es)
qed

lemma cleanPath_idem: "cleanPath (cleanPath p) = cleanPath p"
proof (cases "p = []")
  case True
  then show ?thesis by (simp add: cleanPath_def path_Clean_def)
next
  case False
  define p1 where "p1 = (if hd p \<noteq> CHR ''/'' then CHR ''/'' # p else p)"
  define es where "es = clean_elements [] (split_on (CHR ''/'') (tl p1))"
  have es: "\<forall>e \<in> set es. \<not> special e \<and> CHR ''/'' \<notin> set e"
    using clean_elements_kept [of "[]" "split_on (CHR ''/'') (tl p1)"] clean_elements_from [of "[]" "split_on (CHR ''/'') (tl p1)"] split_on_parts
    by (fastforce simp: es_def)
  let ?np = "CHR ''/'' # join_on (CHR ''/'') es"
  have np: "path_Clean p1 = ?np" by (simp add: path_Clean_def es_def)
  have nonempty: "es \<noteq> []" if "?np \<noteq> ''/''" using that by (cases es) auto
  have p: "cleanPath p = (if last p1 = CHR ''/'' \<and> ?np \<noteq> ''/'' then ?np @ ''/'' else ?np)"
    using False by (simp add: cleanPath_def Let_def np flip: p1_def)
  show ?thesis
  proof (cases "last p1 = CHR ''/'' \<and> ?np \<noteq> ''/''")
    case True
    then have "cleanPath (?np @ ''/'') = ?np @ ''/''"
      using path_Clean_again(2) [OF es nonempty] by (simp add: cleanPath_def Let_def)
    moreover have "cleanPath p = ?np @ ''/''" using p True by meson
    ultimately show ?thesis by (simp only:)
  next
    case noslash: False
    then have "cleanPath ?np = ?np"
      using path_Clean_again(1) [OF es] last_plain [OF es] by (cases "es = []") (simp_all add: cleanPath_def Let_def)
    moreover have "cleanPath p = ?np" using p noslash by meson
    ultimately show ?thesis by (simp only:)
  qed
qed

end
