(* ===== verification/Httpapi.thy ===== *)
theory Httpapi
  imports Kube_Backend Ref_Cluster Set_Request Go_Mime Go_Url
begin

text \<open>
  \<^verbatim>\<open>internal/httpapi/http.go\<close>: the routes each level enables, the PUT handler with its checks in order,
  and the translation of results and errors into responses.

  A request is what the mux reads of it: the method, the escaped path, the raw query, the \<^verbatim>\<open>Content-Type\<close> header, and the
  bytes of the body with what ends them. The standard library's part in between is modelled too: \<open>Go_Url\<close> cleans and
  splits the path and parses the query, \<open>Go_Mime\<close> the header, \<open>Set_Request\<close> decodes the body, and \<open>Go_Encode\<close> writes the bytes
  of a response. Routing follows \<^verbatim>\<open>http.ServeMux\<close>: a path that is not clean is redirected to its clean form, a GET pattern also
  matches HEAD, a path that only other methods have is 405, any other path 404.
\<close>

section \<open>Requests, responses\<close>

record http_request =
  hr_Method :: string
  hr_Path :: string
  hr_RawQuery :: string
  hr_ContentType :: string
  hr_Body :: stream

record response =
  rs_Status :: nat
  rs_Headers :: "(string \<times> string) list"
  rs_Body :: string

text \<open>What the mux answers: a response of a handler or of its own, or a redirect to the clean path.\<close>

datatype answer = Response response | RedirectTo string

text \<open>\<^verbatim>\<open>write\<close>.\<close>

definition http_write :: "nat \<Rightarrow> jvalue \<Rightarrow> response" where
  "http_write status v = \<lparr>rs_Status = status, rs_Headers = [(''Content-Type'', ''application/json'')], rs_Body = Encode v\<rparr>"

definition error_body :: "string \<Rightarrow> string \<Rightarrow> jvalue" where
  "error_body c m = JObject [(''code'', JString c), (''error'', JString m)]"

text \<open>The JSON of the model types by their field tags; \<^verbatim>\<open>omitempty\<close> leaves out nil and empty strings.\<close>

definition json_omitempty :: "string \<Rightarrow> string \<Rightarrow> (string \<times> jvalue) list" where
  "json_omitempty f v = (if v = [] then [] else [(f, JString v)])"

definition json_optional :: "string \<Rightarrow> int32 option \<Rightarrow> (string \<times> jvalue) list" where
  "json_optional f v = (case v of None \<Rightarrow> [] | Some n \<Rightarrow> [(f, JInt (sint n))])"

definition json_deployment :: "deployment \<Rightarrow> jvalue" where
  "json_deployment d = JObject (
     [(''namespace'', JString (Namespace (d_Target d))), (''name'', JString (Name (d_Target d))),
      (''uid'', JString (d_UID d)), (''resourceVersion'', JString (d_ResourceVersion d)),
      (''replicas'', JInt (sint (d_Replicas d))), (''readyReplicas'', JInt (sint (d_ReadyReplicas d))),
      (''availableReplicas'', JInt (sint (d_AvailableReplicas d))), (''generation'', JInt (sint (d_Generation d))),
      (''observedGeneration'', JInt (sint (d_ObservedGeneration d)))] @
     json_optional ''desiredReplicas'' (d_DesiredReplicas d) @
     json_omitempty ''intentVersion'' (d_IntentVersion d) @ json_omitempty ''reconcilePhase'' (d_ReconcilePhase d))"

definition json_set_result :: "set_result \<Rightarrow> jvalue" where
  "json_set_result r = JObject
     [(''namespace'', JString (Namespace (sr_Target r))), (''name'', JString (Name (sr_Target r))),
      (''replicas'', JInt (sint (sr_Replicas r))), (''version'', JString (sr_Version r)), (''accepted'', JBool (sr_Accepted r))]"

section \<open>Responses\<close>

definition status_table :: "(code \<times> nat) list" where
  "status_table = [(InvalidArgument, 400), (NotFound, 404), (Conflict, 409), (Forbidden, 403), (Unavailable, 503),
     (FailedPrecondition, 412), (Internal, 500)]"

definition error_status :: "code \<Rightarrow> nat" where
  "error_status c = (let status = (case map_of status_table c of Some n \<Rightarrow> n | None \<Rightarrow> 0)
     in if status = 0 then 500 else status)"

definition respond :: "gerror + jvalue \<Rightarrow> nat \<Rightarrow> response" where
  "respond r success = (case r of
       Inr out \<Rightarrow> http_write success out
     | Inl err \<Rightarrow> http_write (error_status (ErrorCode (Some err)))
         (error_body (ErrorCode (Some err)) (PublicError (Some err))))"

definition badJSON :: "decode_error option \<Rightarrow> response" where
  "badJSON err = (if err = Some (Read MaxBytesError)
     then http_write 413 (error_body ''invalid_argument'' ''request body exceeds 4096 bytes'')
     else http_write 400 (error_body ''invalid_argument'' ''expected one JSON object with replicas and optional expectedVersion''))"

section \<open>Handlers and routes\<close>

definition http_get :: "'s service \<Rightarrow> target \<Rightarrow> 's \<Rightarrow> response \<times> 's" where
  "http_get svc t s = (case Service_Get svc t s of (out, s1) \<Rightarrow> (respond (map_sum id json_deployment out) 200, s1))"

definition http_put :: "'s service \<Rightarrow> target \<Rightarrow> http_request \<Rightarrow> 's \<Rightarrow> response \<times> 's" where
  "http_put svc t r s =
     (if ParseMediaType (hr_ContentType r) \<noteq> Some ''application/json''
      then (http_write 415 (error_body ''invalid_argument'' ''Content-Type must be application/json''), s)
      else (case decode_body (hr_Body r) of
          Inl err \<Rightarrow> (badJSON err, s)
        | Inr req \<Rightarrow> (case Service_Set svc t req s of
              (out, s1) \<Rightarrow> (respond (map_sum id json_set_result out) 200, s1))))"

definition http_list :: "'s service \<Rightarrow> string \<Rightarrow> 's \<Rightarrow> (response \<times> 's) option" where
  "http_list svc ns s = (case Service_List svc ns s of
       None \<Rightarrow> None
     | Some (out, s1) \<Rightarrow>
         Some (respond (map_sum id (\<lambda>ds. JObject [(''deployments'', JArray (map json_deployment ds))]) out) 200, s1))"

datatype route = Replicas target | Deployments_route

text \<open>The path patterns over the unescaped segments; a wildcard takes any segment but a slash.\<close>

fun route_of :: "string list \<Rightarrow> route option" where
  "route_of [a, b, ns, c, n, d] =
     (if a = ''v1'' \<and> b = ''namespaces'' \<and> c = ''deployments'' \<and> d = ''replicas'' \<and> ns \<noteq> ''/'' \<and> n \<noteq> ''/'' then Some (Replicas (mk_target ns n)) else None)"
| "route_of [a, b] = (if a = ''v1'' \<and> b = ''deployments'' then Some Deployments_route else None)"
| "route_of _ = None"

definition not_found_page :: response where
  "not_found_page = \<lparr>rs_Status = 404, rs_Headers = [(''Content-Type'', ''text/plain; charset=utf-8'')],
     rs_Body = ''404 page not found'' @ [CHR 0x0A]\<rparr>"

definition not_allowed :: "string \<Rightarrow> response" where
  "not_allowed methods = \<lparr>rs_Status = 405, rs_Headers = [(''Allow'', methods), (''Content-Type'', ''text/plain; charset=utf-8'')],
     rs_Body = ''Method Not Allowed'' @ [CHR 0x0A]\<rparr>"

text \<open>The mux of \<^verbatim>\<open>New\<close> for a level. The path of the request target \<^verbatim>\<open>*\<close> is refused; only for CONNECT the path is taken as it is.\<close>

definition ServeHTTP :: "'s service \<Rightarrow> int \<Rightarrow> http_request \<Rightarrow> 's \<Rightarrow> (answer \<times> 's) option" where
  "ServeHTTP svc level r s =
     (if hr_Path r = ''*'' then Some (Response \<lparr>rs_Status = 400, rs_Headers = [(''Connection'', ''close'')], rs_Body = []\<rparr>, s)
      else if hr_Method r \<noteq> ''CONNECT'' \<and> cleanPath (hr_Path r) \<noteq> hr_Path r then Some (RedirectTo (cleanPath (hr_Path r)), s)
      else map_option (map_prod Response id) (case route_of (path_segments (hr_Path r)) of
          Some (Replicas t) \<Rightarrow>
            if hr_Method r = ''GET'' \<or> hr_Method r = ''HEAD'' then Some (http_get svc t s)
            else if level \<ge> 2 \<and> hr_Method r = ''PUT'' then Some (http_put svc t r s)
            else Some (not_allowed (if level \<ge> 2 then ''GET, HEAD, PUT'' else ''GET, HEAD''), s)
        | Some Deployments_route \<Rightarrow>
            if level \<ge> 3 then
              if hr_Method r = ''GET'' \<or> hr_Method r = ''HEAD'' then http_list svc (query_get (hr_RawQuery r) ''namespace'') s
              else Some (not_allowed ''GET, HEAD'', s)
            else Some (not_found_page, s)
        | None \<Rightarrow> Some (not_found_page, s)))"

text \<open>The outer handler: two headers on every response, and a panic becomes status 500.\<close>

definition guard_response :: "response outcome \<Rightarrow> response" where
  "guard_response out =
     (let r = (case out of Returned r \<Rightarrow> r | Panicked \<Rightarrow> http_write 500 (error_body ''internal'' ''internal server error''))
      in r\<lparr>rs_Headers := [(''X-Content-Type-Options'', ''nosniff''), (''Cache-Control'', ''no-store'')] @ rs_Headers r\<rparr>)"

section \<open>Facts\<close>

lemma status_table_total:
  assumes "c \<in> set codes"
  shows "\<exists>n. map_of status_table c = Some n \<and> 400 \<le> n \<and> n < 600"
proof -
  have "list_all (\<lambda>c. case map_of status_table c of Some n \<Rightarrow> 400 \<le> n \<and> n < 600 | None \<Rightarrow> False) codes" by code_simp
  with assms show ?thesis by (auto simp: list_all_iff split: option.splits)
qed

lemma status_table_inj:
  assumes "c \<in> set codes" and "c' \<in> set codes"
  shows "map_of status_table c = map_of status_table c' \<longleftrightarrow> c = c'"
proof -
  have "list_all (\<lambda>c. list_all (\<lambda>c'. (map_of status_table c = map_of status_table c') = (c = c')) codes) codes" by code_simp
  with assms show ?thesis by (simp add: list_all_iff)
qed

lemma error_status_range: "400 \<le> error_status c \<and> error_status c < 600"
proof (cases "map_of status_table c")
  case (Some n)
  then have "n \<in> snd ` set status_table" by (force dest: map_of_SomeD)
  with Some show ?thesis by (auto simp: error_status_def status_table_def)
qed (simp add: error_status_def)

lemma badJSON_status: "rs_Status (badJSON e) = 400 \<or> rs_Status (badJSON e) = 413"
  by (simp add: badJSON_def http_write_def)

section \<open>Properties\<close>

text \<open>
  C12. A REST request changes the cluster only as a well-formed PUT at level 2 or above: a PUT to a clean
  replicas path whose \<^verbatim>\<open>Content-Type\<close> header parses to application/json, with a body of at most 4096 bytes that is exactly one JSON
  document holding a request; and then every write is about the target of the path and carries the count of
  that request, which is valid.
\<close>

theorem http_writes:
  assumes "kube_client k" and "ServeHTTP \<lparr>Backend = kube_backend k level\<rparr> level r s = Some (ans, s')"
    and "writes s' \<noteq> writes s"
  shows "level \<ge> 2 \<and> hr_Method r = ''PUT'' \<and> cleanPath (hr_Path r) = hr_Path r \<and>
    ParseMediaType (hr_ContentType r) = Some ''application/json'' \<and> length (st_bytes (hr_Body r)) \<le> 4096 \<and>
    (\<exists>t v req n ws. route_of (path_segments (hr_Path r)) = Some (Replicas t) \<and>
       json_document v (st_bytes (hr_Body r)) \<and> unmarshal v = Inr req \<and> rq_Replicas req = Some n \<and>
       admissible t req \<and> writes s' = writes s @ ws \<and> list_all (\<lambda>w. kube_carries w t n) ws)"
proof -
  note ok = kube_client.backend_ok [OF assms(1)]
  note reads = backend_contract.service_get_reads [OF ok] backend_contract.service_list_reads [OF ok]
  obtain t resp where t: "route_of (path_segments (hr_Path r)) = Some (Replicas t)" and "level \<ge> 2" and "hr_Method r = ''PUT''"
    and "cleanPath (hr_Path r) = hr_Path r"
    and put: "http_put \<lparr>Backend = kube_backend k level\<rparr> t r s = (resp, s')"
    using assms(2,3)
    by (auto simp: ServeHTTP_def http_get_def http_list_def dest: reads split: option.splits route.splits prod.splits if_splits)
  moreover from put assms(3) obtain req q where req: "decode_body (hr_Body r) = Inr req"
    "ParseMediaType (hr_ContentType r) = Some ''application/json''"
    and set: "Service_Set \<lparr>Backend = kube_backend k level\<rparr> t req s = (q, s')"
    by (auto simp: http_put_def split: sum.splits prod.splits if_splits)
  moreover from backend_contract.service_set_writes [OF ok set] assms(3)
  obtain ws n where "writes s' = writes s @ ws" "admissible t req" "rq_Replicas req = Some n" "list_all (\<lambda>w. kube_carries w t n) ws"
    by auto
  ultimately show ?thesis unfolding decode_body_iff maxBodyBytes_def by blast
qed

definition put_five :: http_request where
  "put_five = \<lparr>hr_Method = ''PUT'', hr_Path = ''/v1/namespaces/shop/deployments/%77eb/replicas'',
     hr_RawQuery = [], hr_ContentType = ''application/json; charset=utf-8'',
     hr_Body = \<lparr>st_bytes = request_text \<lparr>rq_Replicas = Some 5, rq_ExpectedVersion = []\<rparr>, st_end = EOF\<rparr>\<rparr>"

theorem http_writes_witness:
  "\<exists>ws. writes (snd (the (ServeHTTP \<lparr>Backend = kube_backend ref_client 3\<rparr> 3 put_five shop))) = ws \<and> ws \<noteq> [] \<and>
     list_all (\<lambda>w. kube_carries w shop_web 5) ws"
proof -
  let ?run = "ServeHTTP \<lparr>Backend = kube_backend ref_client 3\<rparr> 3 put_five shop"
  have facts: "?run \<noteq> None" "writes (snd (the ?run)) \<noteq> []" "writes shop = []"
    "route_of (path_segments (hr_Path put_five)) = Some (Replicas shop_web)"
    "decode_body (hr_Body put_five) = Inr \<lparr>rq_Replicas = Some 5, rq_ExpectedVersion = []\<rparr>" "st_end (hr_Body put_five) = EOF"
    by code_simp+
  then have "?run = Some (fst (the ?run), snd (the ?run))" by auto
  from http_writes [OF ref.kube_client_axioms this] facts(2,3) obtain v req n where
    v: "length (st_bytes (hr_Body put_five)) \<le> 4096" "json_document v (st_bytes (hr_Body put_five))" "unmarshal v = Inr req"
      "rq_Replicas req = Some n" "list_all (\<lambda>w. kube_carries w shop_web n) (writes (snd (the ?run)))"
    using facts(4) by auto
  then have "decode_body (hr_Body put_five) = Inr req" using facts(6) unfolding decode_body_iff maxBodyBytes_def by blast
  with facts(2,5) v(4,5) show ?thesis by auto
qed

text \<open>
  C27. The answer to a PUT: without a \<^verbatim>\<open>Content-Type\<close> that parses to application/json it is 415; with one, a body that holds a request is
  answered with the outcome of the service for exactly that request; any other is refused, with 413 exactly if the limit ended the
  reading of the body, else with 400; refusals have no effect, and only bodies of more than 4096 bytes are answered 413, none
  of them is carried out.
\<close>

theorem put_answers:
  assumes "st_end (hr_Body r) \<noteq> MaxBytesError"
  shows "if ParseMediaType (hr_ContentType r) \<noteq> Some ''application/json''
    then \<exists>resp. http_put svc t r s = (resp, s) \<and> rs_Status resp = 415
    else case decode_body (hr_Body r) of
      Inr req \<Rightarrow> length (st_bytes (hr_Body r)) \<le> 4096 \<and>
        http_put svc t r s = map_prod (\<lambda>out. respond (map_sum id json_set_result out) 200) id (Service_Set svc t req s)
    | Inl err \<Rightarrow> (\<exists>resp. http_put svc t r s = (resp, s) \<and> rs_Status resp = (if err = Some (Read MaxBytesError) then 413 else 400)) \<and>
        (err = Some (Read MaxBytesError) \<longrightarrow> 4096 < length (st_bytes (hr_Body r)))"
proof (cases "ParseMediaType (hr_ContentType r) = Some ''application/json''")
  case json: True
  show ?thesis
  proof (cases "decode_body (hr_Body r)")
    case (Inr req)
    then have "length (st_bytes (hr_Body r)) \<le> 4096" unfolding decode_body_iff maxBodyBytes_def by blast
    with Inr json show ?thesis by (simp add: http_put_def split: prod.split)
  next
    case (Inl err)
    with assms json decode_body_limit [of "hr_Body r"] show ?thesis by (auto simp: http_put_def badJSON_def http_write_def)
  qed
qed (simp add: http_put_def http_write_def)

theorem put_answers_witness:
  "\<exists>resp. http_put \<lparr>Backend = kube_backend ref_client 3\<rparr> shop_web (put_five\<lparr>hr_Body := \<lparr>st_bytes = ''{} {}'', st_end = EOF\<rparr>\<rparr>) shop = (resp, shop) \<and>
     rs_Status resp = 400"
proof -
  let ?r = "put_five\<lparr>hr_Body := \<lparr>st_bytes = ''{} {}'', st_end = EOF\<rparr>\<rparr>"
  have "decode_body (hr_Body ?r) = Inl None" "ParseMediaType (hr_ContentType ?r) = Some ''application/json''" by code_simp+
  moreover have "st_end (hr_Body ?r) \<noteq> MaxBytesError" by (simp add: put_five_def)
  ultimately show ?thesis using put_answers [of ?r "\<lparr>Backend = kube_backend ref_client 3\<rparr>" shop_web shop] by auto
qed

text \<open>A response with the JSON media type whose body is one JSON document.\<close>

definition json_response :: "response \<Rightarrow> bool" where
  "json_response resp \<longleftrightarrow> rs_Headers resp = [(''Content-Type'', ''application/json'')] \<and> (\<exists>!v. json_document v (rs_Body resp))"

lemma json_write [simp]: "json_response (http_write st j)"
  by (simp add: json_response_def http_write_def Encode_document)

lemma json_respond [simp]: "json_response (respond out st)" "json_response (badJSON e)"
  by (simp_all add: respond_def badJSON_def split: sum.split)




text \<open>
  The level limits the REST interface: at level 1 there is no PUT and no listing, at level 2 no
  listing; a request that a level does not serve reaches no handler, sends nothing to Kubernetes and
  is redirected or answered 400, 404 or 405.
\<close>

lemma http_levels:
  assumes "level < 2 \<and> hr_Method r \<noteq> ''GET'' \<and> hr_Method r \<noteq> ''HEAD'' \<or>
    level < 3 \<and> route_of (path_segments (hr_Path r)) = Some Deployments_route"
  shows "\<exists>ans. ServeHTTP svc level r s = Some (ans, s) \<and> (case ans of Response resp \<Rightarrow> rs_Status resp \<in> {400, 404, 405} | RedirectTo p \<Rightarrow> p = cleanPath (hr_Path r))"
  using assms
  by (auto simp: ServeHTTP_def not_found_page_def not_allowed_def split: option.splits route.splits)

text \<open>
  Errors are told apart over REST: known codes map to pairwise different statuses, every failure of
  a handler has a status between 400 and 599, and success is 200.
\<close>

lemma http_status_faithful:
  assumes "c \<in> set codes" and "c' \<in> set codes"
  shows "(error_status c = error_status c' \<longleftrightarrow> c = c') \<and>
    (200 = rs_Status (respond r 200) \<longleftrightarrow> is_ok r) \<and> (is_ok r \<or> (400 \<le> rs_Status (respond r 200) \<and> rs_Status (respond r 200) < 600))"
proof -
  obtain n n' where n: "map_of status_table c = Some n" "400 \<le> n" "map_of status_table c' = Some n'" "400 \<le> n'"
    using status_table_total assms by blast
  with status_table_inj [OF assms] have "error_status c = error_status c' \<longleftrightarrow> c = c'" by (auto simp: error_status_def)
  moreover have "(200 = rs_Status (respond r 200) \<longleftrightarrow> is_ok r) \<and>
      (is_ok r \<or> (400 \<le> rs_Status (respond r 200) \<and> rs_Status (respond r 200) < 600))"
  proof (cases r)
    case (Inl e)
    then show ?thesis using error_status_range [of "ErrorCode (Some e)"] by (simp add: respond_def http_write_def)
  qed (simp add: respond_def http_write_def)
  ultimately show ?thesis by blast
qed

text \<open>
  The JSON of a view carries every public field: two views with the same JSON agree in all fields
  except the two internal write guards.
\<close>

lemma json_deployment_inj:
  "json_deployment d = json_deployment d' \<longleftrightarrow>
     d\<lparr>d_Protected := False, d_Deleting := False\<rparr> = d'\<lparr>d_Protected := False, d_Deleting := False\<rparr>"
proof
  have target: "Namespace a = Namespace b \<Longrightarrow> Name a = Name b \<Longrightarrow> a = b" for a b :: target by simp
  assume "json_deployment d = json_deployment d'"
  then show "d\<lparr>d_Protected := False, d_Deleting := False\<rparr> = d'\<lparr>d_Protected := False, d_Deleting := False\<rparr>"
    by (cases d; cases d')
       (auto simp: json_deployment_def json_optional_def json_omitempty_def sint_eq intro: target
        split: option.splits if_splits)
next
  assume "d\<lparr>d_Protected := False, d_Deleting := False\<rparr> = d'\<lparr>d_Protected := False, d_Deleting := False\<rparr>"
  then show "json_deployment d = json_deployment d'"
    by (cases d; cases d') (simp add: json_deployment_def)
qed

text \<open>
  C29. The bytes of a GET response carry the view: the body is a JSON document from which a reader recovers every public field,
  so two responses are equal exactly if the views agree in all fields but the two internal write guards. The
  strings of a view are UTF-8, as those of Kubernetes objects are.
\<close>

theorem view_roundtrip:
  assumes "Service_Get svc t s = (Inr d, s1)" and "clean (json_deployment d)"
    and "Service_Get svc t' s' = (Inr d', s1')" and "clean (json_deployment d')"
  shows "(\<exists>v. json_document v (rs_Body (fst (http_get svc t s))) \<and> read_json v = Some (json_deployment d)) \<and>
    (rs_Body (fst (http_get svc t s)) = rs_Body (fst (http_get svc t' s')) \<longleftrightarrow>
       d\<lparr>d_Protected := False, d_Deleting := False\<rparr> = d'\<lparr>d_Protected := False, d_Deleting := False\<rparr>)"
proof -
  have body: "rs_Body (fst (http_get svc t s)) = Encode (json_deployment d)" "rs_Body (fst (http_get svc t' s')) = Encode (json_deployment d')"
    using assms(1,3) by (simp_all add: http_get_def respond_def http_write_def)
  note read = read_json_of [OF assms(2)] read_json_of [OF assms(4)]
  have "json_deployment d = json_deployment d'" if "Encode (json_deployment d) = Encode (json_deployment d')"
  proof -
    have "json_document (json_of (json_deployment d')) (Encode (json_deployment d))" using that Encode_document by simp
    then have "json_of (json_deployment d') = json_of (json_deployment d)" by (simp add: Encode_document)
    with read show ?thesis by simp
  qed
  then have "Encode (json_deployment d) = Encode (json_deployment d') \<longleftrightarrow> json_deployment d = json_deployment d'" by auto
  with read(1) show ?thesis unfolding body json_deployment_inj Encode_document by auto
qed

theorem view_roundtrip_witness:
  "\<exists>d v. fst (Service_Get \<lparr>Backend = kube_backend ref_client 3\<rparr> shop_web shop) = Inr d \<and> d_Replicas d = 2 \<and>
     json_document v (rs_Body (fst (http_get \<lparr>Backend = kube_backend ref_client 3\<rparr> shop_web shop))) \<and> read_json v = Some (json_deployment d)"
proof -
  let ?run = "Service_Get \<lparr>Backend = kube_backend ref_client 3\<rparr> shop_web shop"
  have "case fst ?run of Inr d \<Rightarrow> d_Replicas d = 2 \<and> clean (json_deployment d) | _ \<Rightarrow> False" by code_simp
  then obtain d s1 where d: "?run = (Inr d, s1)" "d_Replicas d = 2" "clean (json_deployment d)" by (cases ?run) (auto split: sum.splits)
  from view_roundtrip [OF d(1,3,1,3)] d show ?thesis by auto
qed

end
