(* ===== verification/Security.thy ===== *)
theory Security
  imports Prelude
begin

text \<open>
  \<^verbatim>\<open>internal/security\<close>: the TLS configurations of both transports with the client allowlist, the check
  of probe identities and the classification of rejections. Reading files, parsing certificates,
  verifying chains and making the request are the standard library's; their outcomes are inputs.
  A certificate is what the code reads of it, the URI names as \<^verbatim>\<open>uri.String()\<close> prints them.
\<close>

section \<open>Configurations\<close>

definition DefaultClientURI :: string where
  "DefaultClientURI = ''spiffe://replica-control.local/client/operator''"

record certificate =
  URIs :: "string list"

datatype tls_error =
    EmptyClientURI
  | EmptyServerName
  | LoadServerIdentity string
  | LoadIdentity string
  | ReadCA string
  | NoUsableCA

datatype tls_version = VersionTLS10 | VersionTLS11 | VersionTLS12 | VersionTLS13

datatype client_auth = NoClientCert | RequestClientCert | RequireAnyClientCert | VerifyClientCertIfGiven | RequireAndVerifyClientCert

text \<open>\<open>'c\<close> is a loaded key pair, \<open>'p\<close> a certificate pool.\<close>

record ('c, 'p) tls_config =
  MinVersion :: tls_version
  Certificates :: "'c list"
  ClientAuth :: client_auth
  ClientCAs :: "'p option"
  RootCAs :: "'p option"
  ServerName :: string
  AllowedURI :: "string option"

text \<open>\<^verbatim>\<open>roots\<close>, given the file's content or the error of reading it and what \<^verbatim>\<open>AppendCertsFromPEM\<close>
  makes of a content (\<^const>\<open>None\<close> when it finds no certificate).\<close>

definition roots :: "('b \<Rightarrow> 'p option) \<Rightarrow> string + 'b \<Rightarrow> tls_error + 'p" where
  "roots pool_of file = (case file of
       Inl err \<Rightarrow> Inl (ReadCA err)
     | Inr pem \<Rightarrow> (case pool_of pem of None \<Rightarrow> Inl NoUsableCA | Some pool \<Rightarrow> Inr pool))"

definition Server :: "string + 'c \<Rightarrow> ('b \<Rightarrow> 'p option) \<Rightarrow> string + 'b \<Rightarrow> string \<Rightarrow> tls_error + ('c, 'p) tls_config" where
  "Server pair pool_of ca allowedClientURI =
     (if allowedClientURI = [] then Inl EmptyClientURI
      else (case pair of
          Inl err \<Rightarrow> Inl (LoadServerIdentity err)
        | Inr cert \<Rightarrow> (case roots pool_of ca of
              Inl err \<Rightarrow> Inl err
            | Inr pool \<Rightarrow> Inr \<lparr>MinVersion = VersionTLS13, Certificates = [cert], ClientAuth = RequireAndVerifyClientCert,
                ClientCAs = Some pool, RootCAs = None, ServerName = [], AllowedURI = Some allowedClientURI\<rparr>)))"

definition Client :: "string + 'c \<Rightarrow> ('b \<Rightarrow> 'p option) \<Rightarrow> string + 'b \<Rightarrow> string \<Rightarrow> tls_error + ('c, 'p) tls_config" where
  "Client pair pool_of ca serverName =
     (if serverName = [] then Inl EmptyServerName
      else (case pair of
          Inl err \<Rightarrow> Inl (LoadIdentity err)
        | Inr cert \<Rightarrow> (case roots pool_of ca of
              Inl err \<Rightarrow> Inl err
            | Inr pool \<Rightarrow> Inr \<lparr>MinVersion = VersionTLS13, Certificates = [cert], ClientAuth = NoClientCert,
                ClientCAs = None, RootCAs = Some pool, ServerName = serverName, AllowedURI = None\<rparr>)))"

section \<open>The allowlist\<close>

record connection_state =
  VerifiedChains :: "certificate list list"
  PeerCertificates :: "certificate list"

datatype verify_error = CertificateRequired | URINotAuthorized

fun has_uri :: "string \<Rightarrow> string list \<Rightarrow> bool" where
  "has_uri uri [] = False"
| "has_uri uri (u # us) = (if u = uri then True else has_uri uri us)"

definition VerifyConnection :: "string \<Rightarrow> connection_state \<Rightarrow> verify_error option" where
  "VerifyConnection allowedClientURI cs = (case PeerCertificates cs of
       [] \<Rightarrow> Some CertificateRequired
     | leaf # _ \<Rightarrow>
         if VerifiedChains cs = [] then Some CertificateRequired
         else if has_uri allowedClientURI (URIs leaf) then None else Some URINotAuthorized)"

section \<open>Probe identities and rejections\<close>

datatype identity_error = OneIdentityRequired | BadCertificate | InvalidFixture | WrongRole

text \<open>The loop over \<^verbatim>\<open>pair.Certificate[1:]\<close> parses every further certificate.\<close>

fun all_parse :: "('d \<Rightarrow> certificate option) \<Rightarrow> 'd list \<Rightarrow> bool" where
  "all_parse parse [] = True"
| "all_parse parse (d # ds) = (case parse d of None \<Rightarrow> False | Some _ \<Rightarrow> all_parse parse ds)"

text \<open>\<open>parse\<close> is \<^verbatim>\<open>x509.ParseCertificate\<close> and \<open>verify\<close> the success of \<^verbatim>\<open>leaf.Verify\<close> for client use. The
  certificates of a configuration are its key pairs, each a chain of encoded certificates.\<close>

definition ValidateProbeIdentity ::
  "('d \<Rightarrow> certificate option) \<Rightarrow> (certificate \<Rightarrow> 'd list \<Rightarrow> bool) \<Rightarrow> ('d list, 'p) tls_config \<Rightarrow> bool \<Rightarrow> identity_error option" where
  "ValidateProbeIdentity parse verify cfg authorized = (case Certificates cfg of
       [leaf # rest] \<Rightarrow> (case parse leaf of
           None \<Rightarrow> Some BadCertificate
         | Some cert \<Rightarrow>
             if \<not> all_parse parse rest then Some BadCertificate
             else if \<not> verify cert rest then Some InvalidFixture
             else if length (URIs cert) = 0 \<or> has_uri DefaultClientURI (URIs cert) \<noteq> authorized then Some WrongRole
             else None)
     | _ \<Rightarrow> Some OneIdentityRequired)"

text \<open>What \<^verbatim>\<open>Do\<close> returns: a response, or an error that is or is not a \<^verbatim>\<open>net.OpError\<close> with its operation
  and the text of its cause.\<close>

datatype request_outcome =
    ResponseStatus nat
  | OpError string string
  | OtherFailure string

datatype rejection_error =
    InvalidRequest string
  | Accepted nat
  | NoVerifiedRejection

definition CheckRejection :: "string + request_outcome \<Rightarrow> rejection_error option" where
  "CheckRejection r = (case r of
       Inl err \<Rightarrow> Some (InvalidRequest err)
     | Inr (ResponseStatus n) \<Rightarrow> Some (Accepted n)
     | Inr (OpError oper cause) \<Rightarrow>
         if oper = ''remote error'' \<and>
           (cause = ''tls: certificate required'' \<or> cause = ''tls: bad certificate'' \<or> cause = ''tls: access denied'')
         then None else Some NoVerifiedRejection
     | Inr (OtherFailure _) \<Rightarrow> Some NoVerifiedRejection)"

section \<open>Facts\<close>

lemma has_uri_iff: "has_uri uri us \<longleftrightarrow> uri \<in> set us"
  by (induction us) auto

lemma VerifyConnection_None:
  "VerifyConnection uri cs = None \<longleftrightarrow>
     VerifiedChains cs \<noteq> [] \<and> (\<exists>leaf rest. PeerCertificates cs = leaf # rest \<and> uri \<in> set (URIs leaf))"
  by (auto simp: VerifyConnection_def has_uri_iff split: list.splits)

lemma ValidateProbeIdentity_None:
  assumes "ValidateProbeIdentity parse verify cfg authorized = None"
  obtains leaf rest cert where "Certificates cfg = [leaf # rest]" and "parse leaf = Some cert" and "verify cert rest"
    and "DefaultClientURI \<in> set (URIs cert) \<longleftrightarrow> authorized"
  using assms by (auto simp: ValidateProbeIdentity_def has_uri_iff split: list.splits option.splits if_splits)

section \<open>Properties\<close>

text \<open>
  C20. A server configuration always demands TLS 1.3, requires and verifies client certificates against
  the given CA, and has a non-empty allowlist: it lets a connection through exactly if the peer's chain
  was verified and its leaf certificate carries the allowed URI.
\<close>

theorem server_authorises:
  assumes "Server pair pool_of ca uri = Inr cfg"
  shows "MinVersion cfg = VersionTLS13 \<and> ClientAuth cfg = RequireAndVerifyClientCert \<and>
    (\<exists>pem pool. ca = Inr pem \<and> pool_of pem = Some pool \<and> ClientCAs cfg = Some pool) \<and> uri \<noteq> [] \<and> AllowedURI cfg = Some uri \<and>
    (VerifyConnection uri cs = None \<longleftrightarrow> VerifiedChains cs \<noteq> [] \<and> PeerCertificates cs \<noteq> [] \<and> uri \<in> set (URIs (hd (PeerCertificates cs))))"
proof -
  have "VerifyConnection uri cs = None \<longleftrightarrow>
      VerifiedChains cs \<noteq> [] \<and> PeerCertificates cs \<noteq> [] \<and> uri \<in> set (URIs (hd (PeerCertificates cs)))"
    by (cases "PeerCertificates cs") (auto simp: VerifyConnection_None)
  with assms show ?thesis by (auto simp: Server_def roots_def split: sum.splits option.splits if_splits)
qed

theorem server_authorises_witness:
  "\<exists>cfg. Server (Inr ''pair'') (\<lambda>pem. Some (pem :: string)) (Inr ''pem'') DefaultClientURI = Inr (cfg :: (string, string) tls_config) \<and>
     MinVersion cfg = VersionTLS13 \<and> AllowedURI cfg = Some DefaultClientURI"
proof -
  let ?run = "Server (Inr ''pair'') (\<lambda>pem. Some (pem :: string)) (Inr ''pem'') DefaultClientURI :: tls_error + (string, string) tls_config"
  have "?run = Inr (projr ?run)" by (simp add: Server_def DefaultClientURI_def roots_def)
  from server_authorises [OF this] this show ?thesis by blast
qed

text \<open>
  The rejection test is meaningful: an identity that passes \<^verbatim>\<open>ValidateProbeIdentity\<close> in the role it is
  meant for is, once its chain is verified, accepted by the default allowlist exactly if it is the
  authorised one; and a rejection is reported only for a certificate alert sent by the server.
\<close>

lemma probe_identity_role:
  assumes "ValidateProbeIdentity parse verify cfg authorized = None" and "Certificates cfg = [leaf # rest]"
    and "parse leaf = Some cert" and "VerifiedChains cs \<noteq> []" and "PeerCertificates cs = cert # more_certs"
  shows "(VerifyConnection DefaultClientURI cs = None \<longleftrightarrow> authorized) \<and> verify cert rest \<and>
    (CheckRejection r = None \<longleftrightarrow> r \<in> Inr ` OpError ''remote error'' ` {''tls: certificate required'', ''tls: bad certificate'', ''tls: access denied''})"
proof (intro conjI)
  show "VerifyConnection DefaultClientURI cs = None \<longleftrightarrow> authorized" "verify cert rest"
    using assms by (auto simp: VerifyConnection_None elim!: ValidateProbeIdentity_None)
  show "CheckRejection r = None \<longleftrightarrow> r \<in> Inr ` OpError ''remote error'' ` {''tls: certificate required'', ''tls: bad certificate'', ''tls: access denied''}"
    by (auto simp: CheckRejection_def split: sum.splits request_outcome.splits)
qed

end
