(* ===== verification/Lab_Identities.thy ===== *)
theory Lab_Identities
  imports Security
begin

text \<open>
  \<^verbatim>\<open>cmd/certgen/main.go\<close> and \<^verbatim>\<open>cmd/tlscheck/main.go\<close>: the certificates issued for the local lab, as the
  templates that are signed and the files written, and the check that a server rejects an identity. Keys, serial
  numbers, signatures and the file system are the standard library's; each of their calls may fail, in any
  combination. Times are seconds relative to an arbitrary origin.
\<close>

section \<open>certgen\<close>

datatype key_usage = CertSign | CRLSign | DigitalSignature

datatype ext_key_usage = ServerAuth | ClientAuthUsage

record template =
  t_CommonName :: string
  t_NotBefore :: int
  t_NotAfter :: int
  t_IsCA :: bool
  t_MaxPathLen :: "nat option"
  t_KeyUsage :: "key_usage list"
  t_ExtKeyUsage :: "ext_key_usage list"
  t_DNSNames :: "string list"
  t_IPAddresses :: "string list"
  t_URIs :: "string list"

text \<open>\<^verbatim>\<open>url.Parse\<close> of the flag: the scheme, the host and the text of the URL.\<close>

record parsed_url =
  url_Scheme :: string
  url_Host :: string
  url_String :: string

datatype certgen_error =
    MkdirFailed
  | ReadDirFailed
  | NotEmptyDirectory
  | BadClientURI
  | KeyFailed
  | SerialFailed
  | SignFailed
  | WriteFailed
  | MarshalFailed

definition day :: int where "day = 24 * 60 * 60"

definition unauthorized_uri :: string where
  "unauthorized_uri = ''spiffe://replica-control.local/client/unauthorized''"

definition ca_template :: "int \<Rightarrow> template" where
  "ca_template now = \<lparr>t_CommonName = ''replica-control local CA'', t_NotBefore = now - 60, t_NotAfter = now + 30 * day,
     t_IsCA = True, t_MaxPathLen = Some 0, t_KeyUsage = [CertSign, CRLSign], t_ExtKeyUsage = [], t_DNSNames = [],
     t_IPAddresses = [], t_URIs = []\<rparr>"

text \<open>The body of the loop over the names.\<close>

definition leaf_template :: "int \<Rightarrow> string \<Rightarrow> parsed_url \<Rightarrow> string \<Rightarrow> template" where
  "leaf_template now dns uri name =
     (let leaf = \<lparr>t_CommonName = name, t_NotBefore = now - 60, t_NotAfter = now + 7 * day, t_IsCA = False,
            t_MaxPathLen = None, t_KeyUsage = [DigitalSignature], t_ExtKeyUsage = [], t_DNSNames = [],
            t_IPAddresses = [], t_URIs = []\<rparr> in
      if name = ''server''
      then leaf\<lparr>t_ExtKeyUsage := [ServerAuth], t_DNSNames := split_on (CHR '','') dns, t_IPAddresses := [''127.0.0.1'', ''::1'']\<rparr>
      else leaf\<lparr>t_ExtKeyUsage := [ClientAuthUsage],
        t_URIs := (if name = ''unauthorized-client'' then [unauthorized_uri] else [url_String uri])\<rparr>)"

text \<open>
  The outside of a run: whether the directory could be made, its entries, the parsed URI (\<^const>\<open>None\<close> when the flag does not
  parse), the keys and serial numbers in the order they are generated, signing of a template with its serial number, the
  subject's key and the issuer's key, the encoding of a key, and which files can be written.
\<close>

record ('k, 'd) certgen_world =
  cw_mkdir :: bool
  cw_entries :: "string list option"
  cw_uri :: "parsed_url option"
  cw_key :: "nat \<Rightarrow> 'k option"
  cw_serial :: "nat \<Rightarrow> int option"
  cw_sign :: "template \<Rightarrow> int \<Rightarrow> 'k \<Rightarrow> 'k \<Rightarrow> 'd option"
  cw_marshal :: "'k \<Rightarrow> string option"
  cw_write :: "string \<Rightarrow> bool"

datatype 'd content = CertPEM 'd | KeyPEM string

text \<open>A file in the output directory: name, permissions, content. \<^verbatim>\<open>0644\<close> is 420 and \<^verbatim>\<open>0600\<close> is 384.\<close>

type_synonym 'd lab_file = "string \<times> nat \<times> 'd content"

definition writePair :: "('k, 'd) certgen_world \<Rightarrow> string \<Rightarrow> 'd \<Rightarrow> 'k \<Rightarrow> 'd lab_file list \<Rightarrow> certgen_error option \<times> 'd lab_file list" where
  "writePair w name der key fs =
     (if \<not> cw_write w (name @ ''.crt'') then (Some WriteFailed, fs)
      else let fs1 = fs @ [(name @ ''.crt'', 420, CertPEM der)] in
        case cw_marshal w key of
          None \<Rightarrow> (Some MarshalFailed, fs1)
        | Some raw \<Rightarrow>
            if \<not> cw_write w (name @ ''.key'') then (Some WriteFailed, fs1)
            else (None, fs1 @ [(name @ ''.key'', 384, KeyPEM raw)]))"

text \<open>One identity: a key, a serial number, a signature by \<open>issuer\<close> (\<^const>\<open>None\<close> for a self-signed one), and its
  files; \<open>i\<close> counts the keys made so far.\<close>

definition issue ::
  "('k, 'd) certgen_world \<Rightarrow> nat \<Rightarrow> string \<Rightarrow> template \<Rightarrow> 'k option \<Rightarrow> 'd lab_file list \<Rightarrow> certgen_error option \<times> 'd lab_file list" where
  "issue w i name t issuer fs = (case cw_key w i of
       None \<Rightarrow> (Some KeyFailed, fs)
     | Some key \<Rightarrow> (case cw_serial w i of
           None \<Rightarrow> (Some SerialFailed, fs)
         | Some sn \<Rightarrow> (case cw_sign w t sn key (case issuer of None \<Rightarrow> key | Some k \<Rightarrow> k) of
               None \<Rightarrow> (Some SignFailed, fs)
             | Some der \<Rightarrow> writePair w name der key fs)))"

fun issue_leaves ::
  "('k, 'd) certgen_world \<Rightarrow> (string \<Rightarrow> template) \<Rightarrow> nat \<Rightarrow> 'k option \<Rightarrow> string list \<Rightarrow> 'd lab_file list \<Rightarrow> certgen_error option \<times> 'd lab_file list" where
  "issue_leaves w leaf i caKey [] fs = (None, fs)"
| "issue_leaves w leaf i caKey (name # names) fs = (case issue w i name (leaf name) caKey fs of
       (Some err, fs1) \<Rightarrow> (Some err, fs1)
     | (None, fs1) \<Rightarrow> issue_leaves w leaf (Suc i) caKey names fs1)"

text \<open>\<^verbatim>\<open>run\<close>: the error and the files written.\<close>

definition certgen :: "('k, 'd) certgen_world \<Rightarrow> string \<Rightarrow> int \<Rightarrow> certgen_error option \<times> 'd lab_file list" where
  "certgen w dns now =
     (if \<not> cw_mkdir w then (Some MkdirFailed, [])
      else case cw_entries w of
        None \<Rightarrow> (Some ReadDirFailed, [])
      | Some entries \<Rightarrow>
          if length entries \<noteq> 0 then (Some NotEmptyDirectory, [])
          else (case cw_uri w of
              None \<Rightarrow> (Some BadClientURI, [])
            | Some u \<Rightarrow>
                if url_Scheme u = [] \<or> url_Host u = [] then (Some BadClientURI, [])
                else (case issue w 0 ''ca'' (ca_template now) None [] of
                    (Some err, fs) \<Rightarrow> (Some err, fs)
                  | (None, fs) \<Rightarrow>
                      issue_leaves w (leaf_template now dns u) 1 (cw_key w 0) [''server'', ''client'', ''unauthorized-client''] fs)))"

definition certgen_exit :: "certgen_error option \<Rightarrow> int" where
  "certgen_exit err = (case err of Some _ \<Rightarrow> 1 | None \<Rightarrow> 0)"

section \<open>tlscheck\<close>

datatype tlscheck_error = ClientConfig tls_error | Identity identity_error | Rejection rejection_error

text \<open>The main function; \<open>request\<close> is the outcome of the request made with a configuration.\<close>

definition tlscheck ::
  "tls_error + ('d list, 'p) tls_config \<Rightarrow> ('d \<Rightarrow> certificate option) \<Rightarrow> (certificate \<Rightarrow> 'd list \<Rightarrow> bool) \<Rightarrow> bool \<Rightarrow>
   (('d list, 'p) tls_config \<Rightarrow> string + request_outcome) \<Rightarrow> tlscheck_error option" where
  "tlscheck client parse verify noCert request = (case client of
       Inl err \<Rightarrow> Some (ClientConfig err)
     | Inr cfg \<Rightarrow> (case ValidateProbeIdentity parse verify cfg noCert of
           Some err \<Rightarrow> Some (Identity err)
         | None \<Rightarrow> (case CheckRejection (request (if noCert then cfg\<lparr>Certificates := []\<rparr> else cfg)) of
               Some err \<Rightarrow> Some (Rejection err)
             | None \<Rightarrow> None)))"

text \<open>A successful check means what it says: the server sent a certificate alert, to a client without an
  identity or with one that is trusted but not authorised.\<close>

lemma tlscheck_success:
  assumes "tlscheck (Inr cfg) parse verify noCert request = None"
  obtains leaf rest cert cause where "Certificates cfg = [leaf # rest]" and "parse leaf = Some cert" and "verify cert rest"
    and "DefaultClientURI \<in> set (URIs cert) \<longleftrightarrow> noCert"
    and "request (if noCert then cfg\<lparr>Certificates := []\<rparr> else cfg) = Inr (OpError ''remote error'' cause)"
proof -
  have id: "ValidateProbeIdentity parse verify cfg noCert = None"
    and rej: "CheckRejection (request (if noCert then cfg\<lparr>Certificates := []\<rparr> else cfg)) = None"
    using assms by (auto simp: tlscheck_def split: option.splits)
  from rej obtain cause where "request (if noCert then cfg\<lparr>Certificates := []\<rparr> else cfg) = Inr (OpError ''remote error'' cause)"
    by (auto simp: CheckRejection_def split: sum.splits request_outcome.splits if_splits)
  with id that show thesis by (auto elim!: ValidateProbeIdentity_None)
qed

section \<open>What is written\<close>

text \<open>The files of one identity, and how far a run got.\<close>

definition pair_files :: "string \<Rightarrow> 'd \<Rightarrow> string \<Rightarrow> 'd lab_file list" where
  "pair_files name der raw = [(name @ ''.crt'', 420, CertPEM der), (name @ ''.key'', 384, KeyPEM raw)]"

definition file_ok :: "'d lab_file \<Rightarrow> bool" where
  "file_ok f = (case f of (path, mode, CertPEM _) \<Rightarrow> mode = 420 | (path, mode, KeyPEM _) \<Rightarrow> mode = 384)"

definition names_of :: "string \<Rightarrow> string list" where
  "names_of name = [name @ ''.crt'', name @ ''.key'']"

lemma length_names [simp]: "length (names_of name) = 2"
  by (simp add: names_of_def)

lemma writePair_files:
  assumes "writePair w name der key fs = (err, fs')"
  shows "\<exists>new. fs' = fs @ new \<and> list_all file_ok new \<and> map fst new = take (length new) (names_of name) \<and>
    (err = None \<longleftrightarrow> length new = 2)"
  using assms by (auto simp: writePair_def names_of_def file_ok_def Let_def split: if_splits option.splits)

lemma issue_files:
  assumes "issue w i name t issuer fs = (err, fs')"
  shows "\<exists>new. fs' = fs @ new \<and> list_all file_ok new \<and> map fst new = take (length new) (names_of name) \<and>
    (err = None \<longleftrightarrow> length new = 2)"
  using assms by (auto simp: issue_def split: option.splits dest: writePair_files)

lemma issue_success:
  assumes "issue w i name t issuer fs = (None, fs')"
  shows "\<exists>key sn der raw. cw_key w i = Some key \<and> cw_serial w i = Some sn \<and>
    cw_sign w t sn key (case issuer of None \<Rightarrow> key | Some k \<Rightarrow> k) = Some der \<and> cw_marshal w key = Some raw \<and> fs' = fs @ pair_files name der raw"
  using assms by (auto simp: issue_def writePair_def pair_files_def Let_def split: option.splits if_splits)

lemma signed_leaf:
  assumes "issue w i name t (Some caKey) fs = (None, fs')"
  shows "(\<exists>key sn der raw. cw_sign w t sn key caKey = Some der \<and> set (pair_files name der raw) \<subseteq> set fs') \<and> set fs \<subseteq> set fs'"
  using issue_success [OF assms] by fastforce

lemma take_names:
  assumes "map fst new = take (length new) (names_of name)" and "length new = 2"
  shows "map fst new = names_of name"
  using assms by (simp add: names_of_def)

lemma issue_leaves_files:
  assumes "issue_leaves w leaf i caKey names fs = (err, fs')"
  shows "\<exists>new. fs' = fs @ new \<and> list_all file_ok new \<and> map fst new = take (length new) (concat (map names_of names)) \<and>
    (err = None \<longleftrightarrow> length new = 2 * length names)"
  using assms
proof (induction names arbitrary: i fs)
  case (Cons name names)
  obtain e fs1 where one: "issue w i name (leaf name) caKey fs = (e, fs1)" by (cases "issue w i name (leaf name) caKey fs")
  from issue_files [OF one] obtain new where new: "fs1 = fs @ new" "list_all file_ok new" "map fst new = take (length new) (names_of name)"
    "e = None \<longleftrightarrow> length new = 2" by blast
  have len: "length new \<le> 2" using arg_cong [OF new(3), of length] by (simp add: names_of_def)
  show ?case
  proof (cases e)
    case None
    with Cons.prems one have rest: "issue_leaves w leaf (Suc i) caKey names fs1 = (err, fs')" by simp
    from Cons.IH [OF rest] obtain further where "fs' = fs1 @ further" "list_all file_ok further"
      "map fst further = take (length further) (concat (map names_of names))" "err = None \<longleftrightarrow> length further = 2 * length names" by blast
    moreover have "map fst new = names_of name" using take_names new(3,4) None by blast
    ultimately show ?thesis using new None by (intro exI [of _ "new @ further"]) auto
  next
    case (Some e')
    with Cons.prems one new len show ?thesis by (intro exI [of _ new]) auto
  qed
qed simp

section \<open>Properties\<close>

text \<open>The certificate a signed template yields, as far as the allowlist reads it.\<close>

definition issued :: "template \<Rightarrow> certificate" where
  "issued t = \<lparr>URIs = t_URIs t\<rparr>"


text \<open>
  C39. certgen touches nothing it should not: whatever fails and wherever, files are written only into a directory that was empty and with
  a usable client URI, no file twice, in the order of the identities, certificates with permissions 0644 and
  private keys with 0600; and the exit code is 0 exactly if all eight files were written.
\<close>

theorem certgen_files:
  assumes "certgen w dns now = (err, fs)"
  shows "list_all file_ok fs \<and>
    map fst fs = take (length fs) (concat (map names_of [''ca'', ''server'', ''client'', ''unauthorized-client''])) \<and> distinct (map fst fs) \<and>
    (fs \<noteq> [] \<longrightarrow> cw_entries w = Some [] \<and> (\<exists>u. cw_uri w = Some u \<and> url_Scheme u \<noteq> [] \<and> url_Host u \<noteq> [])) \<and>
    (certgen_exit err = 0 \<longleftrightarrow> length fs = 8)"
proof -
  let ?all = "concat (map names_of [''ca'', ''server'', ''client'', ''unauthorized-client''])"
  have main: "list_all file_ok fs \<and> map fst fs = take (length fs) ?all \<and>
    (fs \<noteq> [] \<longrightarrow> cw_entries w = Some [] \<and> (\<exists>u. cw_uri w = Some u \<and> url_Scheme u \<noteq> [] \<and> url_Host u \<noteq> [])) \<and> (err = None \<longleftrightarrow> length fs = 8)"
  proof (cases "fs = [] \<and> err \<noteq> None")
    case True
    then show ?thesis by simp
  next
    case False
    with assms obtain u e fs1 where u: "cw_entries w = Some []" "cw_uri w = Some u" "url_Scheme u \<noteq> []" "url_Host u \<noteq> []"
      and ca: "issue w 0 ''ca'' (ca_template now) None [] = (e, fs1)"
      and rest: "(e, fs1) = (err, fs) \<and> e \<noteq> None \<or> e = None \<and>
        issue_leaves w (leaf_template now dns u) 1 (cw_key w 0) [''server'', ''client'', ''unauthorized-client''] fs1 = (err, fs)"
      by (auto simp: certgen_def split: if_splits option.splits prod.splits)
    from issue_files [OF ca] have new: "list_all file_ok fs1" "map fst fs1 = take (length fs1) (names_of ''ca'')" "e = None \<longleftrightarrow> length fs1 = 2"
      by auto
    have len: "length fs1 \<le> 2" using arg_cong [OF new(2), of length] by (simp add: names_of_def)
    show ?thesis
    proof (cases e)
      case None
      with rest obtain further where f: "fs = fs1 @ further" "list_all file_ok further"
        "map fst further = take (length further) (concat (map names_of [''server'', ''client'', ''unauthorized-client'']))"
        "err = None \<longleftrightarrow> length further = 6" using issue_leaves_files by fastforce
      have "map fst fs1 = names_of ''ca''" using take_names new(2,3) None by blast
      with f new(1,3) None u show ?thesis by auto
    next
      case (Some e')
      with rest new len u show ?thesis by auto
    qed
  qed
  have "distinct ?all" by code_simp
  moreover have "certgen_exit err = 0 \<longleftrightarrow> err = None" by (cases err) (simp_all add: certgen_exit_def)
  ultimately show ?thesis using main by (metis distinct_take)
qed

definition lab_world :: "(int, string) certgen_world" where
  "lab_world = \<lparr>cw_mkdir = True, cw_entries = Some [],
     cw_uri = Some \<lparr>url_Scheme = ''spiffe'', url_Host = ''replica-control.local'', url_String = DefaultClientURI\<rparr>,
     cw_key = (\<lambda>i. Some (int i)), cw_serial = (\<lambda>i. Some (int i)), cw_sign = (\<lambda>t sn k ca. Some (t_CommonName t)), cw_marshal = (\<lambda>k. Some ''key''),
     cw_write = (\<lambda>path. path \<noteq> ''client.key'')\<rparr>"

theorem certgen_files_witness:
  "\<exists>err fs. certgen lab_world ''localhost'' 0 = (Some err, fs) \<and> map fst fs = [''ca.crt'', ''ca.key'', ''server.crt'', ''server.key'', ''client.crt''] \<and>
     list_all file_ok fs"
proof -
  let ?run = "certgen lab_world ''localhost'' 0"
  have run: "length (snd ?run) = 5" "fst ?run = Some WriteFailed" by code_simp+
  from certgen_files [OF prod.collapse [symmetric, of ?run]] run(1)
  have "list_all file_ok (snd ?run)" "map fst (snd ?run) = [''ca.crt'', ''ca.key'', ''server.crt'', ''server.key'', ''client.crt'']"
    by (auto simp: names_of_def)
  with run(2) show ?thesis by (metis prod.collapse)
qed

text \<open>
  The lab identities play their roles: after a successful run every certificate file holds the signature, by the key of the CA, of its
  template; every leaf is valid within the validity of the CA, is no CA, and has exactly one of the server and
  client usages; a server whose allowlist is the given URI lets the client identity through once its chain is
  verified, never the server identity, and the unauthorised one only if the given URI is its own.
\<close>

lemma certgen_identities:
  assumes "certgen w dns now = (None, fs)"
  shows "\<exists>u caKey. cw_uri w = Some u \<and> cw_key w 0 = Some caKey \<and>
    (\<forall>name \<in> {''server'', ''client'', ''unauthorized-client''}. \<exists>key sn der raw. let t = leaf_template now dns u name in
       cw_sign w t sn key caKey = Some der \<and> set (pair_files name der raw) \<subseteq> set fs \<and>
       t_NotBefore (ca_template now) \<le> t_NotBefore t \<and> t_NotAfter t \<le> t_NotAfter (ca_template now) \<and> \<not> t_IsCA t \<and>
       t_ExtKeyUsage t = [if name = ''server'' then ServerAuth else ClientAuthUsage] \<and>
       (\<forall>c cs. VerifyConnection (url_String u) \<lparr>VerifiedChains = c # cs, PeerCertificates = [issued t]\<rparr> = None \<longleftrightarrow>
          name = ''client'' \<or> name = ''unauthorized-client'' \<and> url_String u = unauthorized_uri))"
proof -
  from assms obtain u fs1 where u: "cw_uri w = Some u" and ca: "issue w 0 ''ca'' (ca_template now) None [] = (None, fs1)"
    and leaves: "issue_leaves w (leaf_template now dns u) 1 (cw_key w 0) [''server'', ''client'', ''unauthorized-client''] fs1 = (None, fs)"
    by (auto simp: certgen_def split: if_splits option.splits prod.splits)
  from issue_success [OF ca] obtain caKey where key: "cw_key w 0 = Some caKey" by blast
  let ?leaf = "leaf_template now dns u"
  from leaves obtain fs2 fs3 where steps: "issue w 1 ''server'' (?leaf ''server'') (cw_key w 0) fs1 = (None, fs2)"
    "issue w 2 ''client'' (?leaf ''client'') (cw_key w 0) fs2 = (None, fs3)"
    "issue w 3 ''unauthorized-client'' (?leaf ''unauthorized-client'') (cw_key w 0) fs3 = (None, fs)"
    by (auto simp: numeral_2_eq_2 numeral_3_eq_3 split: prod.splits option.splits)
  have signed: "\<exists>key sn der raw. cw_sign w (?leaf name) sn key caKey = Some der \<and> set (pair_files name der raw) \<subseteq> set fs"
    if "name \<in> {''server'', ''client'', ''unauthorized-client''}" for name
    using that signed_leaf [OF steps(1) [unfolded key]] signed_leaf [OF steps(2) [unfolded key]] signed_leaf [OF steps(3) [unfolded key]] by blast
  have roles: "t_NotBefore (ca_template now) \<le> t_NotBefore (?leaf name) \<and> t_NotAfter (?leaf name) \<le> t_NotAfter (ca_template now) \<and> \<not> t_IsCA (?leaf name) \<and>
      t_ExtKeyUsage (?leaf name) = [if name = ''server'' then ServerAuth else ClientAuthUsage]" for name
    by (simp add: leaf_template_def ca_template_def Let_def day_def)
  have allow: "VerifyConnection (url_String u) \<lparr>VerifiedChains = c # cs, PeerCertificates = [issued (?leaf name)]\<rparr> = None \<longleftrightarrow>
      name = ''client'' \<or> name = ''unauthorized-client'' \<and> url_String u = unauthorized_uri"
    if "name \<in> {''server'', ''client'', ''unauthorized-client''}" for name c cs
    using that by (auto simp: leaf_template_def Let_def issued_def VerifyConnection_def)
  show ?thesis unfolding Let_def
  proof (rule exI [of _ u], rule exI [of _ caKey], intro conjI ballI u key)
    fix name
    assume name: "name \<in> {''server'', ''client'', ''unauthorized-client''}"
    from signed [OF name] obtain key sn der raw where sign: "cw_sign w (?leaf name) sn key caKey = Some der"
      and files: "set (pair_files name der raw) \<subseteq> set fs" by blast
    show "\<exists>key sn der raw. cw_sign w (?leaf name) sn key caKey = Some der \<and> set (pair_files name der raw) \<subseteq> set fs \<and>
       t_NotBefore (ca_template now) \<le> t_NotBefore (?leaf name) \<and> t_NotAfter (?leaf name) \<le> t_NotAfter (ca_template now) \<and>
       \<not> t_IsCA (?leaf name) \<and> t_ExtKeyUsage (?leaf name) = [if name = ''server'' then ServerAuth else ClientAuthUsage] \<and>
       (\<forall>c cs. VerifyConnection (url_String u) \<lparr>VerifiedChains = c # cs, PeerCertificates = [issued (?leaf name)]\<rparr> = None \<longleftrightarrow>
          name = ''client'' \<or> name = ''unauthorized-client'' \<and> url_String u = unauthorized_uri)"
      by (rule exI [of _ key], rule exI [of _ sn], rule exI [of _ der], rule exI [of _ raw])
         (intro conjI allI sign files roles [THEN conjunct1] roles [THEN conjunct2, THEN conjunct1] roles [THEN conjunct2, THEN conjunct2, THEN conjunct1]
           roles [THEN conjunct2, THEN conjunct2, THEN conjunct2] allow [OF name])
  qed
qed

end
