(* ===== verification/Server_Main.thy ===== *)
theory Server_Main
  imports Security Health Controller
begin

text \<open>
  \<^verbatim>\<open>cmd/server/main.go\<close>, function \<^verbatim>\<open>run\<close>: what one server instance starts, depending on level and
  configuration, and how it drains and stops. A run is the list of its actions in program order. The
  outcomes of the library calls (files, clients, election, listeners, what ended the wait, whether
  draining finished in time) are inputs. Work in the background is started by an action; its own
  steps are those of the components.
\<close>

section \<open>Configuration\<close>

record config =
  cfg_level :: int
  cfg_listen :: string
  cfg_healthListen :: string
  cfg_kubeconfig :: string
  cfg_cert :: string
  cfg_key :: string
  cfg_ca :: string
  cfg_clientURI :: string
  cfg_election :: bool
  cfg_leaseNamespace :: string
  cfg_leaseName :: string

text \<open>The flags as \<^verbatim>\<open>main\<close> declares them; \<open>ns\<close> is the environment variable \<^verbatim>\<open>POD_NAMESPACE\<close>.\<close>

definition default_config :: "string \<Rightarrow> config" where
  "default_config ns = \<lparr>cfg_level = 5, cfg_listen = '':8443'', cfg_healthListen = '':8081'', cfg_kubeconfig = [],
     cfg_cert = ''/tls/tls.crt'', cfg_key = ''/tls/tls.key'', cfg_ca = ''/tls/ca.crt'', cfg_clientURI = DefaultClientURI,
     cfg_election = True, cfg_leaseNamespace = (if ns = [] then ''replica-system'' else ns), cfg_leaseName = ''replica-control''\<rparr>"

section \<open>The run\<close>

datatype server_error =
    LevelRange
  | TLSFailed tls_error
  | KubeConfigFailed
  | ClientFailed
  | DynamicFailed
  | ControllerFailed
  | HostnameFailed
  | ElectorFailed
  | ListenFailed
  | LeadershipLost
  | ListenerError

datatype 't action =
    NewClients nat nat
  | NewBackend int
  | RegisterHandlers informer
  | RunElection string string
  | RunController
  | StartInformer informer
  | RunHealth
  | ServeAdmin string
  | ServeGRPC string 't
  | ServeHTTPS string 't
  | WatchHealthStatus
  | DrainHealth
  | SleepSeconds nat
  | ShutdownHTTP
  | CloseHTTP
  | GracefulStop
  | StopGRPC
  | CancelRun
  | ShutdownAdmin

text \<open>\<open>o_pair\<close> is what \<^verbatim>\<open>LoadX509KeyPair\<close> makes of the two files, \<open>o_file\<close> what reading a file yields.\<close>

record ('c, 'b, 'p) outcomes =
  o_pair :: "string \<Rightarrow> string \<Rightarrow> string + 'c"
  o_file :: "string \<Rightarrow> string + 'b"
  o_pool :: "'b \<Rightarrow> 'p option"
  o_kubeconfig :: "string \<Rightarrow> bool"
  o_incluster :: bool
  o_client :: bool
  o_dynamic :: bool
  o_handler :: "informer \<Rightarrow> bool"
  o_hostname :: bool
  o_elector :: bool
  o_listen :: "string \<Rightarrow> bool"
  o_wait :: "server_error option"
  o_stopped_in_time :: bool

definition server_tls :: "config \<Rightarrow> ('c, 'b, 'p) outcomes \<Rightarrow> tls_error + ('c, 'p) tls_config" where
  "server_tls cfg o1 = Server (o_pair o1 (cfg_cert cfg) (cfg_key cfg)) (o_pool o1) (o_file o1 (cfg_ca cfg)) (cfg_clientURI cfg)"

text \<open>The controller part at level 5: its actions and its error.\<close>

definition start_controller :: "config \<Rightarrow> ('c, 'b, 'p) outcomes \<Rightarrow> 't action list \<times> server_error option" where
  "start_controller cfg o1 =
     (if cfg_level cfg \<noteq> 5 then ([], None)
      else case Controller_New (o_handler o1) of
          (is, False) \<Rightarrow> (map RegisterHandlers is, Some ControllerFailed)
        | (is, True) \<Rightarrow>
            if cfg_election cfg then
              if \<not> o_hostname o1 then (map RegisterHandlers is, Some HostnameFailed)
              else if \<not> o_elector o1 then (map RegisterHandlers is, Some ElectorFailed)
              else (map RegisterHandlers is @ [RunElection (cfg_leaseNamespace cfg) (cfg_leaseName cfg)], None)
            else (map RegisterHandlers is @ [RunController], None))"

text \<open>\<^verbatim>\<open>backend.Start\<close> launches the informers that \<^verbatim>\<open>kube.New\<close> configured for the level.\<close>

definition start_watches :: "config \<Rightarrow> 't action list" where
  "start_watches cfg = map StartInformer (Backend_Start (cfg_level cfg) (Backend_New (cfg_level cfg))) @
     [RunHealth, ServeAdmin (cfg_healthListen cfg)]"

definition start_listener :: "config \<Rightarrow> ('c, 'b, 'p) outcomes \<Rightarrow> 't \<Rightarrow> 't action list \<times> server_error option" where
  "start_listener cfg o1 tls =
     (if cfg_level cfg = 5 then
        if \<not> o_listen o1 (cfg_listen cfg) then ([], Some ListenFailed)
        else ([WatchHealthStatus, ServeGRPC (cfg_listen cfg) tls], None)
      else ([ServeHTTPS (cfg_listen cfg) tls], None))"

text \<open>From \<^verbatim>\<open>health.Drain()\<close> to the end.\<close>

definition stop_actions :: "config \<Rightarrow> ('c, 'b, 'p) outcomes \<Rightarrow> 't action list" where
  "stop_actions cfg o1 =
     [DrainHealth, SleepSeconds 5] @
     (if cfg_level cfg = 5 then GracefulStop # (if o_stopped_in_time o1 then [] else [StopGRPC])
      else ShutdownHTTP # (if o_stopped_in_time o1 then [] else [CloseHTTP])) @
     [CancelRun, ShutdownAdmin]"

text \<open>The actions of \<^verbatim>\<open>run\<close> and its result; the deferred \<^verbatim>\<open>cancel\<close> runs on every return after the
  context was made.\<close>

definition server_run :: "config \<Rightarrow> ('c, 'b, 'p) outcomes \<Rightarrow> ('c, 'p) tls_config action list \<times> server_error option" where
  "server_run cfg o1 =
     (if cfg_level cfg < 1 \<or> cfg_level cfg > 5 then ([], Some LevelRange)
      else case server_tls cfg o1 of
        Inl err \<Rightarrow> ([], Some (TLSFailed err))
      | Inr tls \<Rightarrow>
          if \<not> (if cfg_kubeconfig cfg \<noteq> [] then o_kubeconfig o1 (cfg_kubeconfig cfg) else o_incluster o1) then ([], Some KubeConfigFailed)
          else if \<not> o_client o1 then ([], Some ClientFailed)
          else if \<not> o_dynamic o1 then ([NewClients 20 40], Some DynamicFailed)
          else (case start_controller cfg o1 of
              (as, Some err) \<Rightarrow> ([NewClients 20 40, NewBackend (cfg_level cfg)] @ as @ [CancelRun], Some err)
            | (as, None) \<Rightarrow> (case start_listener cfg o1 tls of
                  (bs, Some err) \<Rightarrow>
                    ([NewClients 20 40, NewBackend (cfg_level cfg)] @ as @ start_watches cfg @ bs @
                       [CancelRun], Some err)
                | (bs, None) \<Rightarrow>
                    ([NewClients 20 40, NewBackend (cfg_level cfg)] @ as @ start_watches cfg @ bs @
                       stop_actions cfg o1 @ [CancelRun], o_wait o1))))"

text \<open>\<^verbatim>\<open>main\<close>: what is run and the exit code. With \<^verbatim>\<open>-version\<close> nothing is run.\<close>

definition server_main :: "bool \<Rightarrow> config \<Rightarrow> ('c, 'b, 'p) outcomes \<Rightarrow> ('c, 'p) tls_config action list \<times> nat" where
  "server_main showVersion cfg o1 =
     (if showVersion then ([], 0)
      else case server_run cfg o1 of (as, None) \<Rightarrow> (as, 0) | (as, Some _) \<Rightarrow> (as, 1))"

text \<open>\<^verbatim>\<open>sendError\<close>: the channel holds four errors, further ones are dropped.\<close>

definition sendError :: "server_error \<Rightarrow> server_error list \<Rightarrow> server_error list" where
  "sendError err errs = (if length errs < 4 then errs @ [err] else errs)"

section \<open>Properties\<close>

lemmas server_defs = server_run_def start_controller_def start_listener_def start_watches_def stop_actions_def

text \<open>How far a run gets, and its actions then.\<close>

lemma server_run_cases:
  fixes o1 :: "('c, 'b, 'p) outcomes"
  assumes "server_run cfg o1 = (as, r)"
  obtains (early) "as = [] \<or> as = [NewClients 20 40]"
  | (controller) cs err where "start_controller cfg o1 = (cs, Some err)" and "as = [NewClients 20 40, NewBackend (cfg_level cfg)] @ cs @ [CancelRun]"
  | (listener) cs tls bs err where "start_controller cfg o1 = (cs, None)" and "start_listener cfg o1 tls = (bs, Some err)"
      and "as = [NewClients 20 40, NewBackend (cfg_level cfg)] @ cs @ start_watches cfg @ bs @ [CancelRun]"
  | (served) cs tls bs where "1 \<le> cfg_level cfg" and "cfg_level cfg \<le> 5" and "server_tls cfg o1 = Inr tls"
      and "start_controller cfg o1 = (cs, None)" and "start_listener cfg o1 tls = (bs, None)"
      and "as = [NewClients 20 40, NewBackend (cfg_level cfg)] @ cs @ start_watches cfg @ bs @ stop_actions cfg o1 @ [CancelRun]"
proof -
  obtain cs :: "('c, 'p) tls_config action list" and e where c: "start_controller cfg o1 = (cs, e)" by fastforce
  show thesis
  proof (cases "server_tls cfg o1")
    case (Inl err)
    with assms show thesis by (intro early) (auto simp: server_run_def split: if_splits)
  next
    case tls: (Inr tls)
    obtain bs e' where l: "start_listener cfg o1 tls = (bs, e')" by fastforce
    note run = assms [unfolded server_run_def]
    show thesis
    proof (cases e)
      case (Some err)
      with run tls c early controller [of cs err] show thesis by (simp split: if_splits)
    next
      case e: None
      show thesis
      proof (cases e')
        case (Some err)
        with run tls c l e early listener [of cs tls bs err] show thesis by (simp split: if_splits)
      next
        case None
        with run tls c l e early served [of tls cs bs] show thesis by (simp split: if_splits)
      qed
    qed
  qed
qed

lemma controller_actions:
  assumes "start_controller cfg o1 = (cs, err)"
  shows "set cs \<subseteq> range RegisterHandlers \<union> {RunController, RunElection (cfg_leaseNamespace cfg) (cfg_leaseName cfg)}"
    and "cfg_level cfg \<noteq> 5 \<Longrightarrow> cs = []" and "cfg_level cfg = 5 \<Longrightarrow> err = None \<Longrightarrow> RegisterHandlers i \<in> set cs"
  using assms
  by (auto simp: start_controller_def dest!: Controller_New_ok split: if_splits prod.splits bool.splits) (cases i; simp)+

lemma listener_actions:
  assumes "start_listener cfg o1 tls = (bs, err)"
  shows "set bs \<subseteq> {WatchHealthStatus, ServeGRPC (cfg_listen cfg) tls, ServeHTTPS (cfg_listen cfg) tls}"
    and "err = None \<Longrightarrow> (if cfg_level cfg = 5 then ServeGRPC (cfg_listen cfg) tls else ServeHTTPS (cfg_listen cfg) tls) \<in> set bs"
    and "ServeGRPC addr t \<in> set bs \<Longrightarrow> cfg_level cfg = 5" and "ServeHTTPS addr t \<in> set bs \<Longrightarrow> cfg_level cfg \<noteq> 5" and "err \<noteq> None \<Longrightarrow> bs = []"
  using assms by (auto simp: start_listener_def split: if_splits)

lemma watch_actions:
  "set (start_watches cfg) \<subseteq> range StartInformer \<union> {RunHealth, ServeAdmin (cfg_healthListen cfg)}"
  "StartInformer i \<in> set (start_watches cfg) \<Longrightarrow> 4 \<le> cfg_level cfg"
  by (auto simp: start_watches_def Backend_Start_def Backend_New_def)

lemma stop_set: "set (stop_actions cfg o1) \<subseteq> {DrainHealth, SleepSeconds 5, GracefulStop, StopGRPC, ShutdownHTTP, CloseHTTP, CancelRun, ShutdownAdmin}"
  by (auto simp: stop_actions_def)

lemma split_after: "xs @ ys = us @ a # vs \<Longrightarrow> a \<notin> set xs \<Longrightarrow> \<exists>us'. us = xs @ us' \<and> ys = us' @ a # vs"
  by (auto simp: append_eq_append_conv2 Cons_eq_append_conv append_eq_Cons_conv)

lemma started_after:
  assumes "fst (server_run cfg o1) = us @ StartInformer i # vs"
  shows "4 \<le> cfg_level cfg \<and> (cfg_level cfg = 5 \<longrightarrow> RegisterHandlers i \<in> set us)"
proof -
  have started: "StartInformer i \<in> set (fst (server_run cfg o1))" using assms by simp
  have after: ?thesis if cs: "start_controller cfg o1 = (cs, None)" and bs: "StartInformer i \<notin> set bs"
    and as: "fst (server_run cfg o1) = ([NewClients 20 40, NewBackend (cfg_level cfg)] @ cs) @ start_watches cfg @ bs" for cs bs
  proof -
    have "StartInformer i \<notin> set ([NewClients 20 40, NewBackend (cfg_level cfg)] @ cs)" using controller_actions(1) [OF cs] by auto
    from split_after [OF as [symmetric, unfolded assms] this] obtain us' where
      us: "us = ([NewClients 20 40, NewBackend (cfg_level cfg)] @ cs) @ us'" and rest: "start_watches cfg @ bs = us' @ StartInformer i # vs" by blast
    have "StartInformer i \<in> set (start_watches cfg @ bs)" by (simp add: rest)
    then show ?thesis using us bs watch_actions(2) [of i cfg] controller_actions(3) [OF cs] by auto
  qed
  show ?thesis
    using prod.collapse [symmetric, of "server_run cfg o1"]
  proof (cases rule: server_run_cases)
    case early
    with started show ?thesis by auto
  next
    case (controller cs err)
    with started controller_actions(1) [OF controller(1)] show ?thesis by auto
  next
    case (listener cs tls bs err)
    with after [OF listener(1), of "bs @ [CancelRun]"] listener_actions(1) [OF listener(2)] show ?thesis by auto
  next
    case (served cs tls bs)
    with after [OF served(4), of "bs @ stop_actions cfg o1 @ [CancelRun]"] listener_actions(1) [OF served(5)] stop_set [of cfg o1]
    show ?thesis by auto
  qed
qed

lemma served_listener:
  assumes "as = fst (server_run cfg o1)" and "ServeGRPC addr t \<in> set as \<or> ServeHTTPS addr t \<in> set as"
  shows "addr = cfg_listen cfg \<and> server_tls cfg o1 = Inr t \<and> (ServeGRPC addr t \<in> set as \<longleftrightarrow> cfg_level cfg = 5) \<and>
    1 \<le> cfg_level cfg \<and> cfg_level cfg \<le> 5"
  using prod.collapse [symmetric, of "server_run cfg o1"]
proof (cases rule: server_run_cases)
  case (served cs tls bs)
  have "ServeGRPC addr t \<in> set bs \<or> ServeHTTPS addr t \<in> set bs" "ServeGRPC addr t \<in> set as \<longleftrightarrow> ServeGRPC addr t \<in> set bs"
    using assms(2) served(6) assms(1) controller_actions(1) [OF served(4)] watch_actions(1) [of cfg] stop_set [of cfg o1] by auto
  then show ?thesis
    using served(1,2,3) listener_actions(1) [OF served(5)] listener_actions(3,4) [OF served(5), of addr t] by auto
next
  case early
  with assms(2) assms(1) show ?thesis by auto
next
  case (controller cs err)
  with assms(2) assms(1) controller_actions(1) [OF controller(1)] show ?thesis by auto
next
  case (listener cs tls bs err)
  with assms(2) assms(1) controller_actions(1) [OF listener(1)] listener_actions(5) [OF listener(2)] watch_actions(1) [of cfg] show ?thesis by auto
qed

lemma handlers_level:
  assumes "as = fst (server_run cfg o1)"
  shows "RegisterHandlers i \<in> set as \<longrightarrow> cfg_level cfg = 5"
  using prod.collapse [symmetric, of "server_run cfg o1"]
proof (cases rule: server_run_cases)
  case (served cs tls bs)
  with assms(1) controller_actions(2) [OF served(4)] listener_actions(1) [OF served(5)] watch_actions(1) [of cfg] stop_set [of cfg o1]
  show ?thesis by (cases "cfg_level cfg = 5") auto
next
  case early
  with assms(1) show ?thesis by auto
next
  case (controller cs err)
  with assms(1) controller_actions(2) [OF controller(1)] show ?thesis by (cases "cfg_level cfg = 5") auto
next
  case (listener cs tls bs err)
  with assms(1) controller_actions(2) [OF listener(1)] listener_actions(5) [OF listener(2)] watch_actions(1) [of cfg] show ?thesis by (cases "cfg_level cfg = 5") auto
qed

text \<open>
  C21. A server drains before it stops: before any step that shuts a listener down, readiness was withdrawn,
  five seconds were waited and the run context was still live; it is cancelled afterwards, so caches
  and dependency checks outlive the requests being drained.
\<close>

theorem server_stops_in_order:
  assumes "server_run cfg o1 = (as, r)" and "as = us @ stop # vs" and "stop \<in> {ShutdownHTTP, CloseHTTP, GracefulStop, StopGRPC}"
  shows "(\<exists>xs ys zs. us = xs @ DrainHealth # ys @ SleepSeconds 5 # zs) \<and> CancelRun \<notin> set us \<and> CancelRun \<in> set vs"
proof -
  have stop: "stop \<in> set as" using assms(2) by simp
  obtain pre mid where as: "as = pre @ [DrainHealth, SleepSeconds 5] @ mid @ [CancelRun, ShutdownAdmin, CancelRun]"
    and pre: "set pre \<inter> {ShutdownHTTP, CloseHTTP, GracefulStop, StopGRPC, CancelRun} = {}" and mid: "CancelRun \<notin> set mid"
    using assms(1)
  proof (cases rule: server_run_cases)
    case (served cs tls bs)
    let ?pre = "[NewClients 20 40, NewBackend (cfg_level cfg)] @ cs @ start_watches cfg @ bs"
    obtain mid :: "('a, 'b) tls_config action list" where "stop_actions cfg o1 = [DrainHealth, SleepSeconds 5] @ mid @ [CancelRun, ShutdownAdmin]" "CancelRun \<notin> set mid"
      by (auto simp: stop_actions_def)
    moreover have "set ?pre \<inter> {ShutdownHTTP, CloseHTTP, GracefulStop, StopGRPC, CancelRun} = {}"
      using controller_actions(1) [OF served(4)] listener_actions(1) [OF served(5)] watch_actions(1) [of cfg] by auto
    ultimately show thesis using that [of ?pre mid] served(6) by simp
  next
    case early
    with stop assms(3) show thesis by auto
  next
    case (controller cs err)
    with stop assms(3) controller_actions(1) [OF controller(1)] show thesis by auto
  next
    case (listener cs tls bs err)
    with stop assms(3) controller_actions(1) [OF listener(1)] listener_actions(1) [OF listener(2)] watch_actions(1) [of cfg] show thesis by auto
  qed
  let ?head = "pre @ [DrainHealth, SleepSeconds 5]"
  have "stop \<notin> set ?head" using assms(3) pre by auto
  with assms(2) as obtain us' where us: "us = ?head @ us'" and rest: "mid @ [CancelRun, ShutdownAdmin, CancelRun] = us' @ stop # vs"
    by (auto simp: append_eq_append_conv2 append_eq_Cons_conv Cons_eq_append_conv)
  from rest assms(3) obtain vs' where "mid = us' @ stop # vs'" "vs = vs' @ [CancelRun, ShutdownAdmin, CancelRun]"
    by (auto simp: append_eq_append_conv2 append_eq_Cons_conv Cons_eq_append_conv)
  moreover have "\<exists>xs ys zs. us = xs @ DrainHealth # ys @ SleepSeconds 5 # zs"
    using us by (intro exI [of _ pre] exI [of _ "[]"] exI [of _ us']) simp
  ultimately show ?thesis using us pre mid by auto
qed

definition serving :: "(string, string, string) outcomes" where
  "serving = \<lparr>o_pair = (\<lambda>c k. Inr c), o_file = Inr, o_pool = Some, o_kubeconfig = (\<lambda>_. True), o_incluster = True,
     o_client = True, o_dynamic = True, o_handler = (\<lambda>_. True), o_hostname = True,
     o_elector = True, o_listen = (\<lambda>_. True), o_wait = None, o_stopped_in_time = True\<rparr>"

theorem server_stops_in_order_witness:
  "\<exists>us vs. fst (server_run (default_config []) serving) = us @ GracefulStop # vs \<and>
     DrainHealth \<in> set us \<and> CancelRun \<in> set vs"
proof -
  let ?run = "server_run (default_config []) serving"
  have "GracefulStop \<in> set (fst ?run)" by code_simp
  then obtain us vs where u: "fst ?run = us @ GracefulStop # vs" by (meson split_list)
  from server_stops_in_order [OF prod.collapse [symmetric] u] u show ?thesis by fastforce
qed

text \<open>
  C22. What listens is authenticated and belongs to the level: whatever a run serves the API with is exactly the TLS configuration
  made from its own flags, which demands TLS 1.3 and a verified client certificate with the configured URI; gRPC and
  the controller run only at level 5, HTTPS only at levels 1 to 4; informers are started only from level 4 on, at
  level 5 each one after the controller's handlers were registered on it, so that no event is missed; and the exit code is 0 exactly if \<^verbatim>\<open>run\<close> returned no error.
\<close>

theorem server_serves_tls:
  assumes "server_main False cfg o1 = (as, code)"
  shows "(\<forall>addr tls. ServeGRPC addr tls \<in> set as \<or> ServeHTTPS addr tls \<in> set as \<longrightarrow>
      addr = cfg_listen cfg \<and> server_tls cfg o1 = Inr tls \<and> MinVersion tls = VersionTLS13 \<and>
      ClientAuth tls = RequireAndVerifyClientCert \<and> AllowedURI tls = Some (cfg_clientURI cfg) \<and> cfg_clientURI cfg \<noteq> [] \<and>
      (ServeGRPC addr tls \<in> set as \<longleftrightarrow> cfg_level cfg = 5) \<and> 1 \<le> cfg_level cfg \<and> cfg_level cfg \<le> 5) \<and>
    (\<forall>i. RegisterHandlers i \<in> set as \<longrightarrow> cfg_level cfg = 5) \<and>
    (\<forall>i us vs. as = us @ StartInformer i # vs \<longrightarrow> 4 \<le> cfg_level cfg \<and> (cfg_level cfg = 5 \<longrightarrow> RegisterHandlers i \<in> set us)) \<and>
    (code = 0 \<longleftrightarrow> snd (server_run cfg o1) = None) \<and> as = fst (server_run cfg o1)"
proof -
  have tls: "MinVersion tls = VersionTLS13 \<and> ClientAuth tls = RequireAndVerifyClientCert \<and> AllowedURI tls = Some (cfg_clientURI cfg) \<and>
      cfg_clientURI cfg \<noteq> []" if "server_tls cfg o1 = Inr tls" for tls
    using that by (auto simp: server_tls_def Server_def split: if_splits sum.splits)
  have as: "as = fst (server_run cfg o1)" "code = 0 \<longleftrightarrow> snd (server_run cfg o1) = None"
    using assms by (auto simp: server_main_def split: prod.splits option.splits)
  from tls served_listener [OF as(1)] handlers_level [OF as(1)] started_after [of cfg o1] as show ?thesis by metis
qed

theorem server_serves_tls_witness:
  "\<exists>tls. ServeGRPC '':8443'' tls \<in> set (fst (server_main False (default_config []) serving)) \<and>
     ClientAuth tls = RequireAndVerifyClientCert \<and> AllowedURI tls = Some DefaultClientURI"
proof -
  let ?run = "server_main False (default_config []) serving"
  let ?tls = "projr (server_tls (default_config []) serving)"
  have serve: "ServeGRPC '':8443'' ?tls \<in> set (fst ?run)" by code_simp
  note tls = conjunct1 [OF server_serves_tls [OF prod.collapse [symmetric, of ?run]], rule_format, OF disjI1, OF serve]
  have "cfg_clientURI (default_config []) = DefaultClientURI" by (simp add: default_config_def)
  with tls serve show ?thesis by metis
qed

end
