(* ===== verification/Server_Live.thy ===== *)
theory Server_Live
  imports Server_Main
begin

text \<open>
  A level 5 server while it runs (\<^verbatim>\<open>cmd/server/main.go\<close>): the main goroutine from its wait to its return, the goroutine that
  copies readiness into the gRPC health service once a second, the leader election with its callbacks, the readiness probes,
  and listeners that may fail, as one step relation over their shared state. The goroutines interleave freely; a step is one access
  to what they share, so reading \<^verbatim>\<open>Ready\<close> and publishing it are separate steps, as are the three actions of
  \<^verbatim>\<open>OnStoppedLeading\<close>.

  The elector of client-go calls \<^verbatim>\<open>OnStartedLeading\<close> when it acquires the lease, cancels that callback's context when it loses
  the lease or its own context ends, and calls \<^verbatim>\<open>OnStoppedLeading\<close> when it returns; it gives up acquiring only when its context ends.
\<close>

section \<open>State\<close>

datatype serving_status = SERVING | NOT_SERVING

text \<open>The main goroutine: waiting for a signal or an error, draining, sleeping, stopping the listener, cancelling, shutting the
  health listener down, returned.\<close>

datatype main_pc = MainWait | MainDrain | MainSleep | MainStop | MainCancel | MainAdmin | MainDone

text \<open>The ticker's goroutine, with the status it read and whether the server was draining then.\<close>

datatype tick_pc = TickIdle | TickRead serving_status bool | TickHalf serving_status bool | TickStopped

text \<open>The election: not used, acquiring, leading, and \<^verbatim>\<open>OnStoppedLeading\<close> before its check, before \<^verbatim>\<open>Drain\<close>, before
  \<^verbatim>\<open>sendError\<close>, and after.\<close>

datatype elect_pc = ElectOff | Acquiring | Leading | StoppedCheck | StoppedDrain | StoppedSend | ElectDone

text \<open>
  The shared state. The last two fields are history: whether the ticker ever read readiness as true, and
  whether it completed a round that it began while the server was draining.
\<close>

record live =
  lv_main :: main_pc
  lv_result :: "server_error option"
  lv_health :: health_state
  lv_cancelled :: bool
  lv_errs :: "server_error list"
  lv_tick :: tick_pc
  lv_overall :: serving_status
  lv_service :: serving_status
  lv_elect :: elect_pc
  lv_controller :: bool
  lv_serving :: bool
  lv_seen_ready :: bool
  lv_swept :: bool

definition live_start :: "bool \<Rightarrow> live" where
  "live_start election = \<lparr>lv_main = MainWait, lv_result = None, lv_health = Health_New, lv_cancelled = False, lv_errs = [],
     lv_tick = TickIdle, lv_overall = NOT_SERVING, lv_service = NOT_SERVING,
     lv_elect = (if election then Acquiring else ElectOff), lv_controller = (\<not> election), lv_serving = True,
     lv_seen_ready = False, lv_swept = False\<rparr>"

definition tick_status :: "bool \<Rightarrow> int \<Rightarrow> health_state \<Rightarrow> serving_status" where
  "tick_status synced now h = (if Ready synced now h then SERVING else NOT_SERVING)"

section \<open>Steps\<close>

inductive live_step :: "live \<Rightarrow> live \<Rightarrow> bool" where
  main_signal: "lv_main s = MainWait \<Longrightarrow> live_step s (s\<lparr>lv_main := MainDrain\<rparr>)"
| main_error: "lv_main s = MainWait \<Longrightarrow> lv_errs s = e # es \<Longrightarrow>
    live_step s (s\<lparr>lv_main := MainDrain, lv_result := Some e, lv_errs := es\<rparr>)"
| main_drain: "lv_main s = MainDrain \<Longrightarrow> live_step s (s\<lparr>lv_main := MainSleep, lv_health := Drain (lv_health s)\<rparr>)"
| main_sleep: "lv_main s = MainSleep \<Longrightarrow> live_step s (s\<lparr>lv_main := MainStop\<rparr>)"
| main_stop: "lv_main s = MainStop \<Longrightarrow> live_step s (s\<lparr>lv_main := MainCancel, lv_serving := False\<rparr>)"
| main_cancel: "lv_main s = MainCancel \<Longrightarrow> live_step s (s\<lparr>lv_main := MainAdmin, lv_cancelled := True\<rparr>)"
| main_return: "lv_main s = MainAdmin \<Longrightarrow> live_step s (s\<lparr>lv_main := MainDone\<rparr>)"
| health_probe: "live_step s (s\<lparr>lv_health := probe err now (lv_health s)\<rparr>)"
| listener_error: "live_step s (s\<lparr>lv_errs := sendError ListenerError (lv_errs s)\<rparr>)"
| tick_read: "lv_tick s = TickIdle \<Longrightarrow> status = tick_status synced now (lv_health s) \<Longrightarrow>
    live_step s (s\<lparr>lv_tick := TickRead status (draining (lv_health s)), lv_seen_ready := (lv_seen_ready s \<or> status = SERVING)\<rparr>)"
| tick_overall: "lv_tick s = TickRead status d \<Longrightarrow> live_step s (s\<lparr>lv_tick := TickHalf status d, lv_overall := status\<rparr>)"
| tick_service: "lv_tick s = TickHalf status d \<Longrightarrow>
    live_step s (s\<lparr>lv_tick := TickIdle, lv_service := status, lv_swept := (lv_swept s \<or> d)\<rparr>)"
| tick_stop: "lv_tick s = TickIdle \<Longrightarrow> lv_cancelled s \<Longrightarrow>
    live_step s (s\<lparr>lv_tick := TickStopped, lv_overall := NOT_SERVING, lv_service := NOT_SERVING\<rparr>)"
| elect_acquire: "lv_elect s = Acquiring \<Longrightarrow> live_step s (s\<lparr>lv_elect := Leading, lv_controller := True\<rparr>)"
| elect_give_up: "lv_elect s = Acquiring \<Longrightarrow> lv_cancelled s \<Longrightarrow> live_step s (s\<lparr>lv_elect := StoppedCheck\<rparr>)"
| elect_lose: "lv_elect s = Leading \<Longrightarrow> live_step s (s\<lparr>lv_elect := StoppedCheck, lv_controller := False\<rparr>)"
| stopped_check: "lv_elect s = StoppedCheck \<Longrightarrow>
    live_step s (s\<lparr>lv_elect := (if lv_cancelled s then ElectDone else StoppedDrain)\<rparr>)"
| stopped_drain: "lv_elect s = StoppedDrain \<Longrightarrow> live_step s (s\<lparr>lv_elect := StoppedSend, lv_health := Drain (lv_health s)\<rparr>)"
| stopped_send: "lv_elect s = StoppedSend \<Longrightarrow>
    live_step s (s\<lparr>lv_elect := ElectDone, lv_errs := sendError LeadershipLost (lv_errs s)\<rparr>)"

abbreviation live_reach :: "bool \<Rightarrow> live \<Rightarrow> bool" where
  "live_reach election \<equiv> live_step\<^sup>*\<^sup>* (live_start election)"

section \<open>Invariant\<close>

text \<open>The pending status of the ticker.\<close>

fun pending :: "tick_pc \<Rightarrow> (serving_status \<times> bool) option" where
  "pending (TickRead status d) = Some (status, d)"
| "pending (TickHalf status d) = Some (status, d)"
| "pending _ = None"

text \<open>Draining begins when the main goroutine leaves its wait or \<^verbatim>\<open>OnStoppedLeading\<close> runs, and cancelling comes last.\<close>

definition main_inv :: "live \<Rightarrow> bool" where
  "main_inv s \<longleftrightarrow> (lv_main s \<notin> {MainWait, MainDrain} \<longrightarrow> draining (lv_health s)) \<and>
     (lv_cancelled s \<longleftrightarrow> lv_main s \<in> {MainAdmin, MainDone}) \<and>
     (lv_serving s \<longleftrightarrow> lv_main s \<in> {MainWait, MainDrain, MainSleep, MainStop}) \<and> length (lv_errs s) \<le> 4"

definition elect_inv :: "live \<Rightarrow> bool" where
  "elect_inv s \<longleftrightarrow> (lv_elect s = StoppedSend \<longrightarrow> draining (lv_health s)) \<and>
     (lv_elect s = ElectDone \<and> \<not> lv_cancelled s \<longrightarrow> draining (lv_health s) \<and> (lv_main s = MainWait \<longrightarrow> lv_errs s \<noteq> [])) \<and>
     (lv_controller s \<longleftrightarrow> lv_elect s \<in> {ElectOff, Leading})"

definition status_inv :: "live \<Rightarrow> bool" where
  "status_inv s \<longleftrightarrow>
     (lv_swept s \<longrightarrow> draining (lv_health s) \<and> lv_overall s = NOT_SERVING \<and> lv_service s = NOT_SERVING) \<and>
     (\<forall>status d. pending (lv_tick s) = Some (status, d) \<longrightarrow>
        (d \<or> lv_swept s \<longrightarrow> status = NOT_SERVING \<and> draining (lv_health s)) \<and> (status = SERVING \<longrightarrow> lv_seen_ready s)) \<and>
     (\<forall>d. lv_tick s = TickHalf NOT_SERVING d \<longrightarrow> lv_overall s = NOT_SERVING) \<and>
     (lv_tick s = TickStopped \<longrightarrow> lv_overall s = NOT_SERVING \<and> lv_service s = NOT_SERVING) \<and>
     (lv_overall s = SERVING \<or> lv_service s = SERVING \<longrightarrow> lv_seen_ready s)"

lemmas live_inv_defs = main_inv_def elect_inv_def status_inv_def

lemma health_ops [simp]:
  "draining (Drain h)" "draining (probe err now h) = draining h"
  by (simp_all add: Drain_def probe_def Let_def)

lemma draining_status: "draining h \<Longrightarrow> tick_status synced now h = NOT_SERVING"
  by (simp add: tick_status_def Ready_def Let_def)

lemma sendError_facts: "sendError e errs \<noteq> []" "length errs \<le> 4 \<Longrightarrow> length (sendError e errs) \<le> 4"
  by (auto simp: sendError_def)

lemma live_step_inv:
  assumes "live_step s s'" and "main_inv s" and "elect_inv s" and "status_inv s"
  shows "main_inv s' \<and> elect_inv s' \<and> status_inv s'"
  using assms
proof cases
  case (tick_read status synced now)
  then show ?thesis using assms(2-4) draining_status by (auto simp: live_inv_defs)
qed (auto simp: live_inv_defs sendError_facts)

lemma live_reach_inv:
  assumes "live_reach election s"
  shows "main_inv s \<and> elect_inv s \<and> status_inv s"
  using assms
proof (induction rule: rtranclp_induct)
  case base
  show ?case by (simp add: live_inv_defs live_start_def)
next
  case (step s s')
  then show ?case using live_step_inv by blast
qed

section \<open>Shutting down\<close>

fun main_rank :: "main_pc \<Rightarrow> nat" where
  "main_rank MainWait = 6"
| "main_rank MainDrain = 5"
| "main_rank MainSleep = 4"
| "main_rank MainStop = 3"
| "main_rank MainCancel = 2"
| "main_rank MainAdmin = 1"
| "main_rank MainDone = 0"

text \<open>No step of another goroutine holds the main goroutine up or changes its result.\<close>

lemma live_step_rank:
  assumes "live_step s s'" and "lv_main s \<noteq> MainWait"
  shows "main_rank (lv_main s') \<le> main_rank (lv_main s) \<and> lv_main s' \<noteq> MainWait \<and> lv_result s' = lv_result s"
  using assms by cases auto

lemma live_steps_rank:
  assumes "live_step\<^sup>*\<^sup>* s s'" and "lv_main s \<noteq> MainWait"
  shows "main_rank (lv_main s') \<le> main_rank (lv_main s) \<and> lv_main s' \<noteq> MainWait \<and> lv_result s' = lv_result s"
  using assms
proof (induction rule: rtranclp_induct)
  case (step s1 s2)
  then show ?case using live_step_rank [of s1 s2] by auto
qed simp



section \<open>Properties\<close>

text \<open>
  C16. Draining reaches every health interface: once the main goroutine has left its wait and drained, readiness is false whatever the caches
  and the clock say; a round of the ticker begun while draining leaves both gRPC services NOT_SERVING for good, and so does the
  end of the ticker; SERVING is only ever published after readiness was read as true; and the listener stops only after draining, the run
  context is cancelled only after that.
\<close>

theorem drain_withdraws:
  assumes "live_reach election s"
  shows "(lv_main s \<notin> {MainWait, MainDrain} \<longrightarrow> \<not> Ready synced now (lv_health s)) \<and>
    (lv_swept s \<or> lv_tick s = TickStopped \<longrightarrow> lv_overall s = NOT_SERVING \<and> lv_service s = NOT_SERVING) \<and>
    (lv_overall s = SERVING \<or> lv_service s = SERVING \<longrightarrow> lv_seen_ready s) \<and>
    (\<not> lv_serving s \<longrightarrow> draining (lv_health s)) \<and> (lv_cancelled s \<longrightarrow> \<not> lv_serving s)"
  using live_reach_inv [OF assms] by (auto simp: live_inv_defs Ready_def Let_def)

definition lost_lease :: live where
  "lost_lease = (live_start True)\<lparr>lv_elect := ElectDone, lv_controller := False, lv_health := Drain Health_New, lv_errs := [LeadershipLost]\<rparr>"

lemma lost_lease_reach: "live_reach True lost_lease"
proof -
  let ?s0 = "live_start True"
  let ?s1 = "?s0\<lparr>lv_elect := Leading, lv_controller := True\<rparr>"
  let ?s2 = "?s1\<lparr>lv_elect := StoppedCheck, lv_controller := False\<rparr>"
  let ?s3 = "?s2\<lparr>lv_elect := StoppedDrain\<rparr>"
  let ?s4 = "?s3\<lparr>lv_elect := StoppedSend, lv_health := Drain Health_New\<rparr>"
  let ?s5 = "?s4\<lparr>lv_elect := ElectDone, lv_errs := [LeadershipLost]\<rparr>"
  have "live_step ?s0 ?s1" "live_step ?s1 ?s2" "live_step ?s2 ?s3" "live_step ?s3 ?s4" "live_step ?s4 ?s5"
    using live_step.elect_acquire [of ?s0] live_step.elect_lose [of ?s1] live_step.stopped_check [of ?s2] live_step.stopped_drain [of ?s3]
      live_step.stopped_send [of ?s4]
    by (simp_all add: live_start_def sendError_def)
  then have "live_step\<^sup>*\<^sup>* ?s0 ?s5" by (meson converse_rtranclp_into_rtranclp rtranclp.rtrancl_refl)
  then show ?thesis by (simp add: lost_lease_def live_start_def)
qed

lemma stopping_reach: "live_reach True (lost_lease\<lparr>lv_main := MainSleep\<rparr>)"
proof -
  have "live_step lost_lease (lost_lease\<lparr>lv_main := MainDrain\<rparr>)" by (rule live_step.main_signal) (simp add: lost_lease_def live_start_def)
  moreover have "live_step (lost_lease\<lparr>lv_main := MainDrain\<rparr>) (lost_lease\<lparr>lv_main := MainSleep\<rparr>)"
    using live_step.main_drain [of "lost_lease\<lparr>lv_main := MainDrain\<rparr>"] by (simp add: lost_lease_def live_start_def Drain_def)
  ultimately show ?thesis using lost_lease_reach by (meson rtranclp.rtrancl_into_rtrancl)
qed

theorem drain_withdraws_witness: "\<not> Ready True 1 (lv_health (lost_lease\<lparr>lv_main := MainSleep\<rparr>))"
  using drain_withdraws [OF stopping_reach, of True 1] by simp

text \<open>
  C15. A lost lease takes the instance down: when \<^verbatim>\<open>OnStoppedLeading\<close> has run on a live server, the controller was told to stop, readiness is
  withdrawn for good, and if the main goroutine still waits it has an error to receive, with which it begins to stop
  and which \<^verbatim>\<open>run\<close> returns.
\<close>

theorem lost_lease_stops:
  assumes "live_reach election s" and "lv_elect s = ElectDone" and "\<not> lv_cancelled s"
  shows "\<not> lv_controller s \<and> \<not> Ready synced now (lv_health s) \<and>
    (lv_main s = MainWait \<longrightarrow> (\<exists>e s'. live_step s s' \<and> lv_main s' = MainDrain \<and>
       (\<forall>t. live_step\<^sup>*\<^sup>* s' t \<longrightarrow> lv_result t = Some e)))"
proof -
  note inv = live_reach_inv [OF assms(1)]
  have "\<exists>e s'. live_step s s' \<and> lv_main s' = MainDrain \<and> (\<forall>t. live_step\<^sup>*\<^sup>* s' t \<longrightarrow> lv_result t = Some e)" if wait: "lv_main s = MainWait"
  proof -
    from inv wait assms(2,3) obtain e es where es: "lv_errs s = e # es" by (cases "lv_errs s") (auto simp: elect_inv_def)
    let ?s' = "s\<lparr>lv_main := MainDrain, lv_result := Some e, lv_errs := es\<rparr>"
    have "lv_result t = Some e" if "live_step\<^sup>*\<^sup>* ?s' t" for t using live_steps_rank [OF that] by simp
    with live_step.main_error [OF wait es] show ?thesis by (intro exI [of _ e] exI [of _ ?s']) simp
  qed
  with inv assms(2,3) show ?thesis by (auto simp: elect_inv_def Ready_def Let_def)
qed

theorem lost_lease_stops_witness: "\<not> lv_controller lost_lease \<and> \<not> Ready True 1 (lv_health lost_lease)"
proof -
  have "lv_elect lost_lease = ElectDone" "\<not> lv_cancelled lost_lease" by (simp_all add: lost_lease_def live_start_def)
  from lost_lease_stops [OF lost_lease_reach this] show ?thesis by blast
qed



end
