(* ===== verification/Monitor.thy ===== *)
theory Monitor
  imports Prelude
begin

text \<open>
  \<^verbatim>\<open>cmd/probe/monitor.go\<close>: the sampling loop of the rollout probe. Its inputs are the outcome of every
  \<^verbatim>\<open>select\<close> in order, with the result and duration of the check a case makes; a case of a nil
  channel cannot be selected, so a trace with one is no run (\<^const>\<open>None\<close>), and neither is a trace that
  ends before the loop returns.
\<close>

section \<open>The loop\<close>

text \<open>A check: whether it succeeded, and how long it took.\<close>

type_synonym check = "bool \<times> int"

datatype msel =
    DeadlineC
  | FinishC
  | SettledC int check
  | TickerC check

datatype monitor_error =
    RequestFailed nat
  | DeadlineBeforeSettled
  | DeadlineDuringSettle

datatype probe_line =
    ProbeStarted
  | RolloutFinished
  | Summary nat nat int

record monitor_state =
  m_finish :: bool
  m_settled :: bool
  m_total :: nat
  m_failed :: nat
  m_longest :: int
  m_ready :: bool
  m_out :: "probe_line list"

text \<open>The closure \<^verbatim>\<open>sample\<close>.\<close>

definition sample :: "check \<Rightarrow> monitor_state \<Rightarrow> monitor_error option \<times> monitor_state" where
  "sample c st =
     (let st1 = st\<lparr>m_longest := (if snd c > m_longest st then snd c else m_longest st), m_total := m_total st + 1\<rparr> in
      if \<not> fst c then (Some (RequestFailed (m_total st1)), st1\<lparr>m_failed := m_failed st1 + 1\<rparr>) else (None, st1))"

text \<open>The deferred summary line.\<close>

definition finish_run :: "monitor_error option \<times> monitor_state \<Rightarrow> monitor_error option \<times> monitor_state" where
  "finish_run r = (case r of (e, st) \<Rightarrow> (e, st\<lparr>m_out := m_out st @ [Summary (m_total st) (m_failed st) (m_longest st)]\<rparr>))"

fun monitor_loop :: "bool \<Rightarrow> int \<Rightarrow> msel list \<Rightarrow> monitor_state \<Rightarrow> (monitor_error option \<times> monitor_state) option" where
  "monitor_loop controlled expires [] st = None"
| "monitor_loop controlled expires (DeadlineC # sels) st =
     Some (if controlled then Some DeadlineBeforeSettled else None, st)"
| "monitor_loop controlled expires (FinishC # sels) st =
     (if m_finish st
      then monitor_loop controlled expires sels (st\<lparr>m_finish := False, m_settled := True, m_out := m_out st @ [RolloutFinished]\<rparr>)
      else None)"
| "monitor_loop controlled expires (SettledC now c # sels) st =
     (if \<not> m_settled st then None
      else if controlled \<and> \<not> now < expires then Some (Some DeadlineDuringSettle, st)
      else Some (sample c st))"
| "monitor_loop controlled expires (TickerC c # sels) st =
     (case sample c st of
        (Some e, st1) \<Rightarrow> Some (Some e, st1)
      | (None, st1) \<Rightarrow> monitor_loop controlled expires sels st1)"

definition monitor_start :: monitor_state where
  "monitor_start = \<lparr>m_finish = True, m_settled = False, m_total = 0, m_failed = 0, m_longest = 0, m_ready = False, m_out = []\<rparr>"

definition monitor :: "int \<Rightarrow> int \<Rightarrow> bool \<Rightarrow> check \<Rightarrow> msel list \<Rightarrow> (monitor_error option \<times> monitor_state) option" where
  "monitor start duration controlled first sels =
     map_option finish_run (case sample first monitor_start of
        (Some e, st) \<Rightarrow> Some (Some e, st)
      | (None, st) \<Rightarrow> monitor_loop controlled (start + duration) sels (st\<lparr>m_ready := True, m_out := m_out st @ [ProbeStarted]\<rparr>))"

section \<open>Facts\<close>

text \<open>How a successful run ends: nothing failed; a controlled run saw the finish signal and settled in time.\<close>

lemma monitor_loop_success:
  assumes "monitor_loop controlled expires sels st = Some (None, st')"
  shows "m_failed st' = m_failed st \<and> m_total st \<le> m_total st' \<and> m_ready st' = m_ready st \<and>
    (controlled \<longrightarrow> (m_settled st \<or> FinishC \<in> set sels) \<and> m_total st < m_total st' \<and>
       (\<exists>now c. SettledC now c \<in> set sels \<and> now < expires \<and> fst c))"
  using assms
proof (induction controlled expires sels st rule: monitor_loop.induct)
  case (4 controlled expires now c sels st)
  then show ?case by (cases c) (auto simp: sample_def Let_def split: if_splits)
next
  case (5 controlled expires c sels st)
  then have ok: "fst c" by (auto simp: sample_def Let_def split: if_splits)
  then obtain st1 where st1: "sample c st = (None, st1)" "m_failed st1 = m_failed st" "m_total st1 = m_total st + 1"
    "m_ready st1 = m_ready st" "m_settled st1 = m_settled st"
    by (auto simp: sample_def Let_def)
  with 5(2) have "monitor_loop controlled expires sels st1 = Some (None, st')" by simp
  from 5(1) [OF st1(1) [symmetric] refl this] show ?case using st1 by auto
qed (auto split: if_splits)

text \<open>A failed request ends the run at once, and is counted.\<close>

lemma monitor_loop_failure:
  assumes "monitor_loop controlled expires sels st = Some (Some e, st')" and "m_failed st = 0"
  shows "(\<exists>n. e = RequestFailed n \<and> n = m_total st' \<and> m_failed st' = 1) \<or>
    controlled \<and> (e = DeadlineBeforeSettled \<or> e = DeadlineDuringSettle) \<and> m_failed st' = 0"
  using assms
proof (induction controlled expires sels st rule: monitor_loop.induct)
  case (4 controlled expires now c sels st)
  then show ?case by (auto simp: sample_def Let_def split: if_splits)
next
  case (5 controlled expires c sels st)
  then show ?case by (auto simp: sample_def Let_def split: if_splits prod.splits option.splits)
qed (auto split: if_splits)

text \<open>
  The probe stops at the first failed request and names it: an error of a run is either that of the
  request last made, the only failure counted, or, in a controlled run without any failed request, the deadline.
\<close>

lemma monitor_failure:
  assumes "monitor start duration controlled first sels = Some (Some e, st)"
  shows "e = RequestFailed (m_total st) \<and> m_failed st = 1 \<or>
    controlled \<and> (e = DeadlineBeforeSettled \<or> e = DeadlineDuringSettle) \<and> m_failed st = 0"
proof (cases "fst first")
  case True
  let ?st0 = "snd (sample first monitor_start)"
  let ?st1 = "?st0\<lparr>m_ready := True, m_out := m_out ?st0 @ [ProbeStarted]\<rparr>"
  from True have "sample first monitor_start = (None, ?st0)" by (simp add: sample_def Let_def)
  with assms obtain st2 where loop: "monitor_loop controlled (start + duration) sels ?st1 = Some (Some e, st2)"
    and st: "m_failed st = m_failed st2" "m_total st = m_total st2"
    by (auto simp: monitor_def finish_run_def split: prod.splits)
  have "m_failed ?st1 = 0" using True by (simp add: sample_def Let_def monitor_start_def)
  from monitor_loop_failure [OF loop this] st show ?thesis by auto
next
  case False
  with assms show ?thesis by (auto simp: monitor_def finish_run_def sample_def Let_def monitor_start_def)
qed

text \<open>
  The probe reports success only if every request it made succeeded and at least one was made;
  a controlled probe moreover only if the rollout was reported finished and a further request succeeded
  after the settling period and before the overall deadline.
\<close>

lemma monitor_success:
  assumes "monitor start duration controlled first sels = Some (None, st)"
  shows "m_ready st \<and> m_failed st = 0 \<and> 1 \<le> m_total st \<and>
    (controlled \<longrightarrow> FinishC \<in> set sels \<and> 2 \<le> m_total st \<and>
       (\<exists>now c. SettledC now c \<in> set sels \<and> now < start + duration \<and> fst c))"
proof -
  let ?st0 = "snd (sample first monitor_start)"
  let ?st1 = "?st0\<lparr>m_ready := True, m_out := m_out ?st0 @ [ProbeStarted]\<rparr>"
  obtain st2 where loop: "monitor_loop controlled (start + duration) sels ?st1 = Some (None, st2)"
    and st: "m_ready st = m_ready st2" "m_failed st = m_failed st2" "m_total st = m_total st2"
    using assms by (auto simp: monitor_def finish_run_def split: prod.splits option.splits)
  have "m_failed ?st1 = 0" "m_total ?st1 = 1" "\<not> m_settled ?st1"
    using assms by (auto simp: sample_def Let_def monitor_start_def monitor_def finish_run_def split: if_splits)
  with monitor_loop_success [OF loop] st show ?thesis by auto
qed

section \<open>Termination\<close>

text \<open>
  The selections a loop can be offered: the finish signal at most once, since its channel is set to nil,
  and the settling timer only after it.
\<close>

fun offered :: "bool \<Rightarrow> bool \<Rightarrow> msel list \<Rightarrow> bool" where
  "offered finish settled [] = True"
| "offered finish settled (FinishC # sels) = (finish \<and> offered False True sels)"
| "offered finish settled (SettledC _ _ # sels) = (settled \<and> offered finish settled sels)"
| "offered finish settled (_ # sels) = offered finish settled sels"

definition requests_before_deadline :: "msel list \<Rightarrow> nat" where
  "requests_before_deadline sels = length (filter (\<lambda>s. s \<noteq> FinishC) (takeWhile (\<lambda>s. s \<noteq> DeadlineC) sels))"

lemma monitor_loop_returns:
  assumes "offered (m_finish st) (m_settled st) sels" and "DeadlineC \<in> set sels"
  shows "\<exists>e st'. monitor_loop controlled expires sels st = Some (e, st') \<and> m_total st' \<le> m_total st + requests_before_deadline sels"
  using assms
proof (induction controlled expires sels st rule: monitor_loop.induct)
  case (4 controlled expires now c sels st)
  then show ?case by (auto simp: requests_before_deadline_def sample_def Let_def)
next
  case (5 controlled expires c sels st)
  show ?case
  proof (cases "fst c")
    case True
    then obtain st1 where st1: "sample c st = (None, st1)" "m_finish st1 = m_finish st" "m_settled st1 = m_settled st"
      "m_total st1 = m_total st + 1" by (auto simp: sample_def Let_def)
    from 5(1) [OF st1(1) [symmetric] refl] 5(2,3) st1 show ?thesis by (auto simp: requests_before_deadline_def)
  next
    case False
    then show ?thesis by (auto simp: requests_before_deadline_def sample_def Let_def)
  qed
qed (auto simp: requests_before_deadline_def)

section \<open>Properties\<close>

text \<open>
  C38. The probe terminates: along any selections its channels can offer, it returns when the deadline timer fires
  at the latest, having made no more requests than the first one and one for each tick or settling before.
\<close>

theorem monitor_returns:
  assumes "offered True False sels" and "DeadlineC \<in> set sels"
  shows "\<exists>e st. monitor start duration controlled first sels = Some (e, st) \<and> m_total st \<le> 1 + requests_before_deadline sels"
proof (cases "fst first")
  case True
  then obtain st0 where st0: "sample first monitor_start = (None, st0)" "m_finish st0" "\<not> m_settled st0" "m_total st0 = 1"
    by (auto simp: sample_def monitor_start_def Let_def)
  define st1 where "st1 = st0\<lparr>m_ready := True, m_out := m_out st0 @ [ProbeStarted]\<rparr>"
  from monitor_loop_returns [of st1 sels controlled "start + duration"] assms st0 obtain e st'
    where loop: "monitor_loop controlled (start + duration) sels st1 = Some (e, st')" "m_total st' \<le> 1 + requests_before_deadline sels"
    by (auto simp: st1_def)
  have "monitor start duration controlled first sels = Some (finish_run (e, st'))"
    by (simp add: monitor_def st0(1) loop(1) flip: st1_def)
  with loop(2) show ?thesis by (simp add: finish_run_def)
next
  case False
  then show ?thesis by (auto simp: monitor_def finish_run_def sample_def monitor_start_def Let_def)
qed

theorem monitor_returns_witness:
  "\<exists>e st. monitor 0 100 True (True, 1) [TickerC (True, 2), FinishC, TickerC (True, 1), DeadlineC] = Some (e, st) \<and> m_total st \<le> 3"
proof -
  have "offered True False [TickerC (True, 2), FinishC, TickerC (True, 1), DeadlineC]"
    "requests_before_deadline [TickerC (True, 2), FinishC, TickerC (True, 1), DeadlineC] = 2" by code_simp+
  with monitor_returns [of "[TickerC (True, 2), FinishC, TickerC (True, 1), DeadlineC]" 0 100 True "(True, 1)"] show ?thesis by (simp add: numeral_3_eq_3)
qed

end
