(* ===== verification/Probe_Main.thy ===== *)
theory Probe_Main
  imports Monitor Security Httpapi Grpc_Service
begin

text \<open>
  \<^verbatim>\<open>cmd/probe/main.go\<close>: the rollout probe around the sampling loop of \<open>Monitor\<close>. A run is determined by
  its flags and by what the outside does: files, the listener, the outcome of every call, and the
  interleaving of the loop's selections with requests to the finish endpoint, which are handled in
  other goroutines and meet the loop only in the flag \<^verbatim>\<open>ready\<close> and the channel \<^verbatim>\<open>finished\<close>.
\<close>

section \<open>Flags and requests\<close>

record probe_flags =
  pf_level :: int
  pf_addr :: string
  pf_serverName :: string
  pf_ns :: string
  pf_name :: string
  pf_duration :: int
  pf_controlled :: bool
  pf_finish :: bool
  pf_settle :: int
  pf_interval :: int
  pf_cert :: string
  pf_key :: string
  pf_ca :: string

text \<open>The flags as \<^verbatim>\<open>run\<close> declares them; durations are nanoseconds.\<close>

definition default_flags :: probe_flags where
  "default_flags = \<lparr>pf_level = 5, pf_addr = ''replica-control.replica-system.svc:8443'', pf_serverName = ''replica-control.replica-system.svc'',
     pf_ns = ''default'', pf_name = ''demo'', pf_duration = 75 * 1000000000, pf_controlled = False, pf_finish = False,
     pf_settle = 10 * 1000000000, pf_interval = 200 * 1000000, pf_cert = ''/tls/client.crt'', pf_key = ''/tls/client.key'', pf_ca = ''/tls/ca.crt''\<rparr>"

text \<open>What one check sends.\<close>

datatype probe_call = ProbeRPC get_replicas_request | ProbeGet string

definition probe_path :: "probe_flags \<Rightarrow> string" where
  "probe_path f = ''/v1/namespaces/'' @ pf_ns f @ ''/deployments/'' @ pf_name f @ ''/replicas''"

definition probe_request :: "probe_flags \<Rightarrow> probe_call" where
  "probe_request f = (if pf_level f = 5 then ProbeRPC \<lparr>gq_Namespace = pf_ns f, gq_Name = pf_name f\<rparr>
     else ProbeGet (''https://'' @ pf_addr f @ probe_path f))"

text \<open>
  What comes back: whether the client or request could be made, whether the call returned without
  error, the HTTP status, and the time the check took.
\<close>

record call_outcome =
  co_made :: bool
  co_returned :: bool
  co_status :: nat
  co_elapsed :: int

datatype check_error = NotMade | CallFailed | HTTPStatus nat

definition probe_check :: "int \<Rightarrow> call_outcome \<Rightarrow> check_error option" where
  "probe_check level c =
     (if level = 5 then
        if \<not> co_made c then Some NotMade else if \<not> co_returned c then Some CallFailed else None
      else if \<not> co_made c then Some NotMade
      else if \<not> co_returned c then Some CallFailed
      else if co_status c \<noteq> 200 then Some (HTTPStatus (co_status c))
      else None)"

text \<open>A check as the loop sees it.\<close>

definition checked :: "int \<Rightarrow> call_outcome \<Rightarrow> check" where
  "checked level c = (probe_check level c = None, co_elapsed c)"

section \<open>The finish endpoint\<close>

record finish_state =
  fs_ready :: bool
  fs_finished :: bool
  fs_once :: bool

definition finish_start :: finish_state where
  "finish_start = \<lparr>fs_ready = False, fs_finished = False, fs_once = False\<rparr>"

text \<open>The handler: the status, or a panic for a channel closed twice.\<close>

definition finish_handler :: "finish_state \<Rightarrow> nat outcome \<times> finish_state" where
  "finish_handler f =
     (if \<not> fs_ready f then (Returned 503, f)
      else if fs_once f then (Returned 202, f)
      else if fs_finished f then (Panicked, f\<lparr>fs_once := True\<rparr>)
      else (Returned 202, f\<lparr>fs_once := True, fs_finished := True\<rparr>))"

definition finish_serve :: "string \<Rightarrow> string \<Rightarrow> finish_state \<Rightarrow> nat outcome \<times> finish_state" where
  "finish_serve meth path f =
     (if path \<noteq> ''/finish'' then (Returned 404, f)
      else if meth \<noteq> ''POST'' then (Returned 405, f)
      else finish_handler f)"

section \<open>A run\<close>

text \<open>What happens after the first check: a request to the endpoint, or a selection of the loop.\<close>

datatype probe_event =
    FinishRequest string string
  | Deadline
  | Finished
  | Settled int call_outcome
  | Ticked call_outcome

fun selections :: "int \<Rightarrow> probe_event list \<Rightarrow> msel list" where
  "selections level [] = []"
| "selections level (FinishRequest _ _ # es) = selections level es"
| "selections level (Deadline # es) = DeadlineC # selections level es"
| "selections level (Finished # es) = FinishC # selections level es"
| "selections level (Settled now c # es) = SettledC now (checked level c) # selections level es"
| "selections level (Ticked c # es) = TickerC (checked level c) # selections level es"

text \<open>The endpoint along the events, with the answers; receiving from the channel before it is closed is
  no run.\<close>

fun endpoint :: "probe_event list \<Rightarrow> finish_state \<Rightarrow> (nat outcome list \<times> finish_state) option" where
  "endpoint [] f = Some ([], f)"
| "endpoint (FinishRequest meth path # es) f =
     (case finish_serve meth path f of (a, f') \<Rightarrow> map_option (\<lambda>(as, g). (a # as, g)) (endpoint es f'))"
| "endpoint (Finished # es) f = (if fs_finished f then endpoint es f else None)"
| "endpoint (_ # es) f = endpoint es f"

datatype probe_error =
    PostFailed
  | FinishStatus nat
  | NotPositive
  | TLSConfig tls_error
  | ListenError
  | MonitorFailed monitor_error

record ('c, 'b, 'p) probe_world =
  pw_post :: "nat option"
  pw_pair :: "string \<Rightarrow> string \<Rightarrow> string + 'c"
  pw_pool :: "'b \<Rightarrow> 'p option"
  pw_ca :: "string \<Rightarrow> string + 'b"
  pw_listen :: bool
  pw_start :: int
  pw_early :: "(string \<times> string) list"
  pw_first :: call_outcome
  pw_events :: "probe_event list"

record probe_result =
  pr_error :: "probe_error option"
  pr_answers :: "nat outcome list"
  pr_monitor :: "monitor_state option"

definition exits :: "probe_error option \<Rightarrow> probe_result" where
  "exits e = \<lparr>pr_error = e, pr_answers = [], pr_monitor = None\<rparr>"

definition early_events :: "('c, 'b, 'p) probe_world \<Rightarrow> probe_event list" where
  "early_events w = map (\<lambda>(m, p). FinishRequest m p) (pw_early w)"

text \<open>From the listener to the end of \<^verbatim>\<open>monitor\<close>: requests may arrive during the first check, before
  \<^verbatim>\<open>ready\<close> is set by its success. Without \<^verbatim>\<open>-controlled\<close> there is no endpoint to ask.\<close>

definition probe_monitor :: "probe_flags \<Rightarrow> ('c, 'b, 'p) probe_world \<Rightarrow> probe_result option" where
  "probe_monitor f w =
     (if \<not> pf_controlled f \<and> (pw_early w \<noteq> [] \<or> list_ex (\<lambda>e. case e of FinishRequest _ _ \<Rightarrow> True | _ \<Rightarrow> False) (pw_events w)) then None
      else case endpoint (early_events w) finish_start of
        None \<Rightarrow> None
      | Some (as, f0) \<Rightarrow>
          (case monitor (pw_start w) (pf_duration f) (pf_controlled f) (checked (pf_level f) (pw_first w)) (selections (pf_level f) (pw_events w)) of
             None \<Rightarrow> None
           | Some (e, st) \<Rightarrow>
               (case endpoint (pw_events w) (f0\<lparr>fs_ready := m_ready st\<rparr>) of
                  None \<Rightarrow> None
                | Some (bs, _) \<Rightarrow> Some \<lparr>pr_error = map_option MonitorFailed e, pr_answers = as @ bs, pr_monitor = Some st\<rparr>)))"

definition probe_run :: "probe_flags \<Rightarrow> ('c, 'b, 'p) probe_world \<Rightarrow> probe_result option" where
  "probe_run f w =
     (if pf_finish f then
        (case pw_post w of
           None \<Rightarrow> Some (exits (Some PostFailed))
         | Some status \<Rightarrow> Some (exits (if status \<noteq> 202 then Some (FinishStatus status) else None)))
      else if pf_duration f \<le> 0 \<or> pf_interval f \<le> 0 \<or> pf_settle f \<le> 0 then Some (exits (Some NotPositive))
      else case Client (pw_pair w (pf_cert f) (pf_key f)) (pw_pool w) (pw_ca w (pf_ca f)) (pf_serverName f) of
          Inl err \<Rightarrow> Some (exits (Some (TLSConfig err)))
        | Inr cfg \<Rightarrow>
            if pf_controlled f \<and> \<not> pw_listen w then Some (exits (Some ListenError)) else probe_monitor f w)"

text \<open>\<^verbatim>\<open>main\<close>: the exit code.\<close>

definition probe_exit_code :: "probe_result \<Rightarrow> nat" where
  "probe_exit_code r = (if pr_error r = None then 0 else 1)"

section \<open>Facts\<close>

text \<open>The channel is closed only by an answered request, once, and only when the probe is ready.\<close>

definition finish_inv :: "finish_state \<Rightarrow> bool" where
  "finish_inv f \<longleftrightarrow> fs_once f = fs_finished f \<and> (fs_finished f \<longrightarrow> fs_ready f)"

lemma finish_serve_inv:
  assumes "finish_serve meth path f = (a, f')" and "finish_inv f"
  shows "finish_inv f' \<and> fs_ready f' = fs_ready f \<and> a \<noteq> Panicked \<and> (fs_finished f' \<longleftrightarrow> fs_finished f \<or> a = Returned 202) \<and>
    (a = Returned 202 \<longrightarrow> fs_ready f)"
  using assms by (auto simp: finish_serve_def finish_handler_def finish_inv_def split: if_splits)

lemma endpoint_inv:
  assumes "endpoint es f = Some (as, f')" and "finish_inv f"
  shows "finish_inv f' \<and> fs_ready f' = fs_ready f \<and> Panicked \<notin> set as \<and> (fs_finished f' \<longleftrightarrow> fs_finished f \<or> Returned 202 \<in> set as) \<and>
    (Returned 202 \<in> set as \<longrightarrow> fs_ready f) \<and> (Finished \<in> set es \<longrightarrow> fs_finished f')"
  using assms
proof (induction es f arbitrary: as rule: endpoint.induct)
  case (2 meth path es f)
  obtain a f1 where a: "finish_serve meth path f = (a, f1)" by (cases "finish_serve meth path f")
  with 2(2) obtain bs where bs: "endpoint es f1 = Some (bs, f')" "as = a # bs" by auto
  from finish_serve_inv [OF a 2(3)] have inv: "finish_inv f1" by simp
  from 2(1) [OF a [symmetric] bs(1) inv] finish_serve_inv [OF a 2(3)] bs(2) show ?case by auto
next
  case (3 es f)
  from 3(2) have "fs_finished f" "endpoint es f = Some (as, f')" by (auto split: if_splits)
  with 3(1,3) show ?case by auto
qed auto

lemma selections_finish: "FinishC \<in> set (selections level es) \<longleftrightarrow> Finished \<in> set es"
  by (induction level es rule: selections.induct) auto

lemma early_unready:
  assumes "endpoint (early_events w) finish_start = Some (as, f0)"
  shows "finish_inv f0 \<and> \<not> fs_finished f0 \<and> Returned 202 \<notin> set as \<and> Panicked \<notin> set as"
  using endpoint_inv [OF assms] by (auto simp: finish_inv_def finish_start_def)

lemma early_length:
  assumes "endpoint (early_events w) f = Some (as, g)"
  shows "length as = length (pw_early w)"
proof -
  have "endpoint (map (\<lambda>(m, p). FinishRequest m p) rs) f = Some (as, g) \<Longrightarrow> length as = length rs" for rs as f
    by (induction rs arbitrary: f as) (auto split: prod.splits)
  with assms show ?thesis by (simp add: early_events_def)
qed

text \<open>A run that got to the loop.\<close>

lemma probe_monitorE:
  assumes "probe_monitor f w = Some r"
  obtains as f0 e st bs g where "endpoint (early_events w) finish_start = Some (as, f0)"
    and "monitor (pw_start w) (pf_duration f) (pf_controlled f) (checked (pf_level f) (pw_first w)) (selections (pf_level f) (pw_events w)) = Some (e, st)"
    and "endpoint (pw_events w) (f0\<lparr>fs_ready := m_ready st\<rparr>) = Some (bs, g)"
    and "r = \<lparr>pr_error = map_option MonitorFailed e, pr_answers = as @ bs, pr_monitor = Some st\<rparr>"
  using assms by (auto simp: probe_monitor_def split: if_splits option.splits prod.splits)

lemma monitor_ready:
  assumes "monitor start duration controlled first sels = Some (e, st)" and "m_ready st"
  shows "fst first"
  using assms by (auto simp: monitor_def sample_def monitor_start_def finish_run_def Let_def split: if_splits)

lemma settled_selection:
  "SettledC now c \<in> set (selections level es) \<Longrightarrow> \<exists>o1. Settled now o1 \<in> set es \<and> c = checked level o1"
  by (induction level es rule: selections.induct) auto

lemma silent_endpoint:
  "\<not> list_ex (\<lambda>e. case e of FinishRequest _ _ \<Rightarrow> True | _ \<Rightarrow> False) es \<Longrightarrow> endpoint es f = Some (as, g) \<Longrightarrow> as = []"
  by (induction es f arbitrary: as rule: endpoint.induct) (auto split: if_splits)

lemma uncontrolled_silent:
  assumes "probe_monitor f w = Some r" and "\<not> pf_controlled f"
  shows "pr_answers r = []"
proof -
  from assms(2) assms(1) have "pw_early w = []" "\<not> list_ex (\<lambda>e. case e of FinishRequest _ _ \<Rightarrow> True | _ \<Rightarrow> False) (pw_events w)"
    by (auto simp: probe_monitor_def split: if_splits)
  with assms(1) show ?thesis by (elim probe_monitorE) (auto simp: early_events_def dest: silent_endpoint)
qed

section \<open>Properties\<close>

text \<open>
  C24. A controlled probe that exits without error checked with TLS 1.3 under the expected server name, made at least two
  requests of which none failed, and acknowledged the end of the rollout: some POST to the finish endpoint was
  answered 202, after the first request had succeeded, and after the settling period and before the deadline
  one more request succeeded.
\<close>

theorem probe_success:
  assumes "probe_run f w = Some r" and "probe_exit_code r = 0" and "pf_controlled f" and "\<not> pf_finish f"
  shows "0 < pf_duration f \<and> 0 < pf_interval f \<and> 0 < pf_settle f \<and>
    (\<exists>cfg. Client (pw_pair w (pf_cert f) (pf_key f)) (pw_pool w) (pw_ca w (pf_ca f)) (pf_serverName f) = Inr cfg \<and> MinVersion cfg = VersionTLS13 \<and> ServerName cfg = pf_serverName f) \<and>
    probe_check (pf_level f) (pw_first w) = None \<and>
    (\<exists>st. pr_monitor r = Some st \<and> 2 \<le> m_total st \<and> m_failed st = 0) \<and>
    Returned 202 \<in> set (drop (length (pw_early w)) (pr_answers r)) \<and>
    (\<exists>now c. Settled now c \<in> set (pw_events w) \<and> now < pw_start w + pf_duration f \<and> probe_check (pf_level f) c = None)"
proof -
  from assms obtain cfg where pos: "0 < pf_duration f" "0 < pf_interval f" "0 < pf_settle f"
    and cfg: "Client (pw_pair w (pf_cert f) (pf_key f)) (pw_pool w) (pw_ca w (pf_ca f)) (pf_serverName f) = Inr cfg" and run: "probe_monitor f w = Some r"
    by (auto simp: probe_run_def exits_def probe_exit_code_def split: if_splits sum.splits)
  have tls: "MinVersion cfg = VersionTLS13" "ServerName cfg = pf_serverName f"
    using cfg by (auto simp: Client_def split: if_splits sum.splits)
  from run obtain as f0 e st bs g where early: "endpoint (early_events w) finish_start = Some (as, f0)"
    and mon: "monitor (pw_start w) (pf_duration f) (pf_controlled f) (checked (pf_level f) (pw_first w)) (selections (pf_level f) (pw_events w)) = Some (e, st)"
    and late: "endpoint (pw_events w) (f0\<lparr>fs_ready := m_ready st\<rparr>) = Some (bs, g)"
    and r: "r = \<lparr>pr_error = map_option MonitorFailed e, pr_answers = as @ bs, pr_monitor = Some st\<rparr>" by (rule probe_monitorE)
  have "e = None" using assms(2) r by (simp add: probe_exit_code_def split: if_splits)
  note ok = monitor_success [OF mon [unfolded this]]
  have first: "probe_check (pf_level f) (pw_first w) = None" using monitor_ready [OF mon] ok by (simp add: checked_def)
  have "Finished \<in> set (pw_events w)" using ok assms(3) by (simp add: selections_finish)
  moreover have "finish_inv (f0\<lparr>fs_ready := m_ready st\<rparr>)" "\<not> fs_finished f0" using early_unready [OF early] by (auto simp: finish_inv_def)
  ultimately have "Returned 202 \<in> set bs" using endpoint_inv [OF late] by auto
  then have "Returned 202 \<in> set (drop (length (pw_early w)) (pr_answers r))" using r early_length [OF early] by simp
  moreover obtain now c where "Settled now c \<in> set (pw_events w)" "now < pw_start w + pf_duration f" "probe_check (pf_level f) c = None"
    using ok assms(3) settled_selection by (fastforce simp: checked_def)
  ultimately show ?thesis using pos cfg tls first ok assms(3) r by auto
qed

text \<open>
  C26. The finish endpoint never acknowledges early and never panics: in no run, whatever requests arrive and however
  they interleave with the loop, is the channel closed twice, and 202 is answered only after the first
  authenticated request had succeeded.
\<close>

theorem finish_acknowledged:
  assumes "probe_run f w = Some r"
  shows "Panicked \<notin> set (pr_answers r) \<and>
    (Returned 202 \<in> set (pr_answers r) \<longrightarrow> pf_controlled f \<and> probe_check (pf_level f) (pw_first w) = None \<and>
       Returned 202 \<notin> set (take (length (pw_early w)) (pr_answers r)))"
proof (cases "pr_answers r = []")
  case False
  with assms have run: "probe_monitor f w = Some r" by (auto simp: probe_run_def exits_def split: if_splits option.splits sum.splits)
  then obtain as f0 e st bs g where early: "endpoint (early_events w) finish_start = Some (as, f0)"
    and mon: "monitor (pw_start w) (pf_duration f) (pf_controlled f) (checked (pf_level f) (pw_first w)) (selections (pf_level f) (pw_events w)) = Some (e, st)"
    and late: "endpoint (pw_events w) (f0\<lparr>fs_ready := m_ready st\<rparr>) = Some (bs, g)"
    and r: "r = \<lparr>pr_error = map_option MonitorFailed e, pr_answers = as @ bs, pr_monitor = Some st\<rparr>" by (rule probe_monitorE)
  have inv: "finish_inv (f0\<lparr>fs_ready := m_ready st\<rparr>)" using early_unready [OF early] by (auto simp: finish_inv_def)
  have "Returned 202 \<notin> set as" "Panicked \<notin> set as" using early_unready [OF early] by auto
  moreover have "take (length (pw_early w)) (pr_answers r) = as" using r early_length [OF early] by simp
  moreover have "probe_check (pf_level f) (pw_first w) = None" if "Returned 202 \<in> set bs"
    using endpoint_inv [OF late inv] that monitor_ready [OF mon] by (simp add: checked_def)
  moreover have "pf_controlled f" using False r run uncontrolled_silent [OF run] by auto
  ultimately show ?thesis using r endpoint_inv [OF late inv] by auto
qed simp

definition call_ok :: call_outcome where
  "call_ok = \<lparr>co_made = True, co_returned = True, co_status = 200, co_elapsed = 3\<rparr>"

definition sample_flags :: probe_flags where
  "sample_flags = default_flags\<lparr>pf_level := 4, pf_duration := 100, pf_controlled := True\<rparr>"

definition sample_world :: "(string, string, string) probe_world" where
  "sample_world = \<lparr>pw_post = None, pw_pair = (\<lambda>c k. Inr c), pw_pool = Some, pw_ca = Inr, pw_listen = True, pw_start = 0,
     pw_early = [(''POST'', ''/finish'')], pw_first = call_ok,
     pw_events = [Ticked call_ok, FinishRequest ''POST'' ''/finish'', Finished, FinishRequest ''POST'' ''/finish'', Settled 50 call_ok]\<rparr>"

lemma sample_probe:
  "\<exists>r. probe_run sample_flags sample_world = Some r \<and> probe_exit_code r = 0 \<and> pr_answers r = [Returned 503, Returned 202, Returned 202]"
proof -
  have "probe_run sample_flags sample_world \<noteq> None" "probe_exit_code (the (probe_run sample_flags sample_world)) = 0"
    "pr_answers (the (probe_run sample_flags sample_world)) = [Returned 503, Returned 202, Returned 202]" by code_simp+
  then show ?thesis by auto
qed

theorem probe_success_witness:
  "\<exists>r st. probe_run sample_flags sample_world = Some r \<and> pr_monitor r = Some st \<and> 2 \<le> m_total st \<and> m_failed st = 0"
proof -
  obtain r where r: "probe_run sample_flags sample_world = Some r" "probe_exit_code r = 0" using sample_probe by blast
  have "pf_controlled sample_flags" "\<not> pf_finish sample_flags" by (simp_all add: sample_flags_def default_flags_def)
  from probe_success [OF r this] r(1) show ?thesis by blast
qed

theorem finish_acknowledged_witness:
  "\<exists>r. probe_run sample_flags sample_world = Some r \<and> Returned 202 \<in> set (pr_answers r) \<and> Panicked \<notin> set (pr_answers r) \<and>
     Returned 202 \<notin> set (take (length (pw_early sample_world)) (pr_answers r))"
proof -
  obtain r where r: "probe_run sample_flags sample_world = Some r" "pr_answers r = [Returned 503, Returned 202, Returned 202]"
    using sample_probe by blast
  from finish_acknowledged [OF r(1)] r show ?thesis by auto
qed

section \<open>The probe and the server\<close>

text \<open>What the probe's request comes to at a server at the level of the flags when the connection holds: over gRPC whether the generated
  stub returned an error (\<open>failure\<close> stands for an error of the library), over REST the status of the answer.\<close>

definition served :: "'e status_error \<Rightarrow> 'e \<Rightarrow> 's service \<Rightarrow> probe_flags \<Rightarrow> 's \<Rightarrow> call_outcome" where
  "served mk failure svc f s = (case probe_request f of
       ProbeRPC q \<Rightarrow> \<lparr>co_made = True, co_returned =
           (case client_GetReplicas (local_conn (grpc_server mk svc) (Some (server_interceptor mk)) failure) q s of Some (Inr _, _) \<Rightarrow> True | _ \<Rightarrow> False),
         co_status = 0, co_elapsed = 0\<rparr>
     | ProbeGet url \<Rightarrow>
         (case ServeHTTP svc (pf_level f) \<lparr>hr_Method = ''GET'', hr_Path = drop (length (''https://'' @ pf_addr f)) url, hr_RawQuery = [], hr_ContentType = [],
             hr_Body = \<lparr>st_bytes = [], st_end = EOF\<rparr>\<rparr> s of
            Some (Response r, _) \<Rightarrow> \<lparr>co_made = True, co_returned = True, co_status = rs_Status r, co_elapsed = 0\<rparr>
          | _ \<Rightarrow> \<lparr>co_made = True, co_returned = False, co_status = 0, co_elapsed = 0\<rparr>))"

lemma label_plain: "dns_label l \<Longrightarrow> plain_element l"
proof -
  assume l: "dns_label l"
  have "\<not> alnum (CHR ''/'')" "\<not> alnum (CHR ''%'')" "\<not> alnum (CHR ''.'')" by code_simp+
  with l show ?thesis by (auto simp: dns_label_def plain_element_def list_all_iff)
qed

lemma name_plain:
  assumes "list_all (\<lambda>l. dns_label l \<and> length l \<le> 63) (split_on (CHR ''.'') n)"
  shows "plain_element n"
proof -
  have parts: "c \<noteq> CHR ''/'' \<and> c \<noteq> CHR ''%''" if "l \<in> set (split_on (CHR ''.'') n)" "c \<in> set l" for l c
    using assms that label_plain [of l] by (auto simp: list_all_iff plain_element_def)
  have chars: "c \<in> set (join_on d ls) \<Longrightarrow> c = d \<or> (\<exists>l \<in> set ls. c \<in> set l)" for c d ls
    by (induction ls rule: join_on.induct) auto
  have "CHR ''/'' \<notin> set n" "CHR ''%'' \<notin> set n"
    using chars [of _ "CHR ''.''" "split_on (CHR ''.'') n"] parts by auto
  moreover have "n \<notin> {[], ''.'', ''..''}"
    using assms by (auto simp: dns_label_def)
  ultimately show ?thesis by (simp add: plain_element_def)
qed

lemma probe_path_routed:
  assumes "valid_target (mk_target (pf_ns f) (pf_name f))"
  shows "cleanPath (probe_path f) = probe_path f" and "probe_path f \<noteq> ''*''"
    and "route_of (path_segments (probe_path f)) = Some (Replicas (mk_target (pf_ns f) (pf_name f)))"
proof -
  let ?es = "[''v1'', ''namespaces'', pf_ns f, ''deployments'', pf_name f, ''replicas'']"
  have path: "probe_path f = CHR ''/'' # join_on (CHR ''/'') ?es" by (simp add: probe_path_def)
  have names: "plain_element (pf_ns f)" "plain_element (pf_name f)"
    using assms label_plain name_plain by (auto simp: valid_target_def)
  have "plain_element ''v1''" "plain_element ''namespaces''" "plain_element ''deployments''" "plain_element ''replicas''" by code_simp+
  with names have plain: "list_all plain_element ?es" by simp
  show "cleanPath (probe_path f) = probe_path f" "probe_path f \<noteq> ''*''"
    using plain_path(1) [OF _ plain] by (simp_all add: path)
  have "pf_ns f \<noteq> ''/''" "pf_name f \<noteq> ''/''" using names by (auto simp: plain_element_def)
  with plain_path(2) [OF _ plain] show "route_of (path_segments (probe_path f)) = Some (Replicas (mk_target (pf_ns f) (pf_name f)))"
    by (simp add: path)
qed

lemma get_status: "rs_Status (fst (http_get svc t s)) = 200 \<longleftrightarrow> is_ok (fst (Service_Get svc t s))"
proof (cases "Service_Get svc t s")
  case (Pair out s1)
  then show ?thesis using error_status_range [of "ErrorCode (Some (projl out))"] by (cases out) (auto simp: http_get_def respond_def http_write_def)
qed

text \<open>
  C25. The probe measures the service: for a valid target, over either transport, a check that reaches a server at the probe's level succeeds exactly if the service's own
  read of that Deployment succeeded.
\<close>

theorem probe_sees_service:
  assumes "kube_client k" and "status_pkg mk" and "valid_target (mk_target (pf_ns f) (pf_name f))"
  shows "probe_check (pf_level f) (served mk failure \<lparr>Backend = kube_backend k (pf_level f)\<rparr> f s) = None \<longleftrightarrow>
    is_ok (fst (Service_Get \<lparr>Backend = kube_backend k (pf_level f)\<rparr> (mk_target (pf_ns f) (pf_name f)) s))"
proof -
  let ?svc = "\<lparr>Backend = kube_backend k (pf_level f)\<rparr>" and ?t = "mk_target (pf_ns f) (pf_name f)"
  show ?thesis
  proof (cases "pf_level f = 5")
    case True
    obtain out s1 where get: "Service_Get ?svc ?t s = (out, s1)" by fastforce
    have "convertError mk e \<noteq> None" if "out = Inl e" for e
      using status_pkg.convertError_known [OF assms(2)] backend_contract.service_codes(1) [OF kube_client.backend_ok [OF assms(1)] get [unfolded that]]
      by blast
    with get True show ?thesis by (cases out) (auto simp: served_def local_get probe_request_def probe_check_def GetReplicas_def pb_getters split: option.split)
  next
    case False
    have "ServeHTTP ?svc (pf_level f) \<lparr>hr_Method = ''GET'', hr_Path = probe_path f, hr_RawQuery = [], hr_ContentType = [],
        hr_Body = \<lparr>st_bytes = [], st_end = EOF\<rparr>\<rparr> s = Some (Response (fst (http_get ?svc ?t s)), snd (http_get ?svc ?t s))"
      using probe_path_routed [OF assms(3)] by (cases "http_get ?svc ?t s") (simp add: ServeHTTP_def)
    with False get_status [of ?svc ?t s] show ?thesis by (simp add: served_def probe_request_def probe_check_def)
  qed
qed

theorem probe_sees_service_witness:
  "probe_check 3 (served plain_status (CodeUnavailable, []) \<lparr>Backend = kube_backend ref_client 3\<rparr> (default_flags\<lparr>pf_level := 3, pf_ns := ''shop'', pf_name := ''web''\<rparr>) shop) = None"
proof -
  let ?f = "default_flags\<lparr>pf_level := 3, pf_ns := ''shop'', pf_name := ''web''\<rparr>"
  have "is_ok (fst (Service_Get \<lparr>Backend = kube_backend ref_client 3\<rparr> (mk_target ''shop'' ''web'') shop))" "valid_target (mk_target ''shop'' ''web'')" by code_simp+
  with probe_sees_service [OF ref.kube_client_axioms plain.status_pkg_axioms, of ?f "(CodeUnavailable, [])" shop] show ?thesis by simp
qed

end
