(* ===== verification/Replicactl.thy ===== *)
theory Replicactl
  imports Grpc_Service Go_Strconv Security
begin

text \<open>
  \<^verbatim>\<open>cmd/replicactl/main.go\<close>: the translation of command-line arguments (after the flags) into a gRPC
  request, with \<^verbatim>\<open>strconv.ParseInt(s, 10, 32)\<close>, and \<^verbatim>\<open>run\<close> around it: the TLS identity, the client, the call
  through the generated stubs and the printed answer. Files, the connection, the health client and \<^verbatim>\<open>protojson\<close>
  are inputs.
\<close>

section \<open>Commands\<close>

datatype cli_error =
    CommandRequired
  | GetUsage
  | SetUsage
  | InvalidCount num_error
  | ListUsage
  | HealthUsage
  | UnknownCommand string

datatype rpc =
    CallGet get_replicas_request
  | CallSet set_replicas_request
  | CallList list_deployments_request
  | CallHealth string

definition replicactl :: "string list \<Rightarrow> string \<Rightarrow> cli_error + rpc" where
  "replicactl args expected = (case args of
       [] \<Rightarrow> Inl CommandRequired
     | cmd # _ \<Rightarrow>
         if cmd = ''get'' then
           if length args \<noteq> 3 then Inl GetUsage
           else Inr (CallGet \<lparr>gq_Namespace = args ! 1, gq_Name = args ! 2\<rparr>)
         else if cmd = ''set'' then
           if length args \<noteq> 4 then Inl SetUsage
           else (case ParseInt 32 (args ! 3) of
               Inl err \<Rightarrow> Inl (InvalidCount err)
             | Inr n \<Rightarrow> Inr (CallSet \<lparr>sq_Namespace = args ! 1, sq_Name = args ! 2, sq_Replicas = Some (word_of_int n), sq_ExpectedVersion = expected\<rparr>))
         else if cmd = ''list'' then
           if length args > 2 then Inl ListUsage
           else Inr (CallList \<lparr>lq_Namespace = (if length args = 2 then args ! 1 else [])\<rparr>)
         else if cmd = ''health'' then
           if length args \<noteq> 1 then Inl HealthUsage else Inr (CallHealth ''replicas.v1.ReplicaService'')
         else Inl (UnknownCommand cmd))"

section \<open>The run\<close>









section \<open>Properties\<close>

text \<open>
  The count typed for \<^verbatim>\<open>set\<close> is sent exactly or not at all: the decimal numeral of a 32-bit integer
  yields a request with that count, target and expected version, and the numeral of any other integer
  a range error without a request, never a wrapped count.
\<close>

lemma cli_set_exact:
  "replicactl [''set'', ns, name, canonical i] expected =
     (if - (2 ^ 31) \<le> i \<and> i < 2 ^ 31
      then Inr (CallSet \<lparr>sq_Namespace = ns, sq_Name = name, sq_Replicas = Some (word_of_int i), sq_ExpectedVersion = expected\<rparr>)
      else Inl (InvalidCount ErrRange))"
  by (auto simp: replicactl_def ParseInt_canonical)








end
