(* ===== verification/Spec2Isabelle.thy ===== *)
theory Spec2Isabelle
  imports Write_Safety Read_Views Intent_Objects Reconcile_Safety Convergence Controller_Safety Replica_System Health
    Grpc_Service Httpapi Security Lab_Identities Server_Main Server_Live Monitor Probe_Main Replicactl
begin

text \<open>
  Replica Control: a verification of the Go program under \<^verbatim>\<open>src/\<close>, a server that reads and sets the replica
  counts of Kubernetes Deployments. A server runs at one of five levels: level 1 reads over REST, level 2
  also writes scales, level 3 also lists, level 4 reads from informer caches, and level 5 serves gRPC,
  stores the desired count as an intent object and runs a controller that reconciles intents.

  \<^bold>\<open>Parts and theories, in the order of the calls\<close>

  \<^item> \<open>Prelude\<close>: machine integers of Go, splitting and joining of strings, results. \<open>Go_Regexp\<close>: matching
    of regular expressions by derivatives, proved against the language of an expression.
  \<^item> \<open>Model\<close> (\<^verbatim>\<open>internal/model/model.go\<close>): error values and codes, targets and keys, validation, and the
    records of views, requests, results, intents and statuses. Errors are a datatype with their causes,
    so that \<^verbatim>\<open>errors.As\<close> and \<^verbatim>\<open>errors.Is\<close> walk the same chains.
  \<^item> \<open>Service\<close> (\<^verbatim>\<open>internal/service/service.go\<close>): validation in front of a backend. A backend is a record of
    operations; the locale \<open>backend_contract\<close> states what it promises.
  \<^item> \<open>Kube_Client\<close>: the interface to code outside the repository (client-go, informers, \<^verbatim>\<open>apierrors\<close>,
    \<^verbatim>\<open>unstructured\<close>, \<^verbatim>\<open>retry\<close>) as one record of functions over an arbitrary world, sessions with the log
    of requests sent, and the documented behaviour as the locale \<open>kube_client\<close>. \<open>Ref_Cluster\<close>: an
    executable in-memory cluster that satisfies it, at which theorems are applied.
  \<^item> \<open>Kube_Intents\<close> (\<^verbatim>\<open>internal/kube/intents.go\<close>) and \<open>Kube_Backend\<close> (\<^verbatim>\<open>internal/kube/backend.go\<close>): parsing
    and building of intents, \<^verbatim>\<open>setIntent\<close>, \<^verbatim>\<open>UpdateScale\<close>, \<^verbatim>\<open>WriteStatus\<close>; reads, listings, write guards,
    \<^verbatim>\<open>Set\<close> and informer set-up by level. The backend is proved to keep \<open>backend_contract\<close> (a sublocale).
  \<^item> \<open>Reconcile\<close> (\<^verbatim>\<open>internal/reconcile/reconcile.go\<close>): one pass over a store, its case rule, the decision
    table, and the locale \<open>store_contract\<close>. \<open>Kube_Store\<close>: the backend as that store, keeping the contract.
    \<open>Convergence\<close>: stores and clusters in which nobody else writes (the locales \<open>quiet_store\<close> and
    \<open>quiet_cluster\<close>, the second a sublocale of the first through the backend).
  \<^item> \<open>Controller\<close> (\<^verbatim>\<open>internal/controller/controller.go\<close>): event handlers, a worker's turn, and \<^verbatim>\<open>Run\<close> with
    two workers as a step relation; the queue's promise is the locale \<open>work_queue\<close>. \<open>Replica_System\<close>: the API and the
    controller of one process together, and a specification of what they achieve.
  \<^item> What the program uses of Go's standard library between sockets and handlers. \<open>Go_Json\<close>, \<open>Go_Unquote\<close>: the
    byte-driven scanner and reader of \<^verbatim>\<open>encoding/json\<close> and string literals as UTF-8. \<open>Go_Encode\<close>: its encoder, with the
    escaping of \<^verbatim>\<open>Encoder.Encode\<close>. \<open>Go_Strconv\<close>: integer parsing. \<open>Go_Mime\<close>: \<^verbatim>\<open>mime.ParseMediaType\<close>. \<open>Go_Url\<close>: path cleaning,
    percent escapes and queries. \<open>Json_Grammar\<close>: the JSON grammar as an inductive definition; the scanner accepts
    exactly its documents. \<open>Set_Request\<close>: the decoding of a PUT body, from its bytes to a request or an error.
  \<^item> \<open>Grpcapi\<close> and \<open>Httpapi\<close> (\<^verbatim>\<open>internal/grpcapi/grpc.go\<close>, \<^verbatim>\<open>internal/httpapi/http.go\<close>, the messages of
    \<^verbatim>\<open>gen/replicas/v1/replicas.pb.go\<close>): the transports. A REST request is its method, path, raw query, \<^verbatim>\<open>Content-Type\<close> and
    body; a response is its status, headers and body as bytes. \<open>Grpc_Service\<close> (\<^verbatim>\<open>gen/replicas/v1/replicas_grpc.pb.go\<close>): the generated
    handlers, the service description and the client stubs; a connection is the locale \<open>grpc_conn\<close>.
    \<open>Health\<close> (\<^verbatim>\<open>internal/health/health.go\<close>): readiness.
    \<open>Security\<close> (\<^verbatim>\<open>internal/security\<close>): TLS configurations, the client allowlist, rejection tests.
    \<open>Lab_Identities\<close> (\<^verbatim>\<open>cmd/certgen\<close>, \<^verbatim>\<open>cmd/tlscheck\<close>): the lab's certificates and the rejection check.
  \<^item> \<open>Server_Main\<close> (\<^verbatim>\<open>cmd/server/main.go\<close>): flags and \<^verbatim>\<open>run\<close> as the list of its actions, from the outcomes of the
    library calls. \<open>Server_Live\<close>: the goroutines of a level 5 server between start and return as a step relation: the
    main goroutine, the ticker that copies readiness into the gRPC health service, the election callbacks,
    readiness probes and failing listeners.
  \<^item> \<open>Monitor\<close> and \<open>Probe_Main\<close> (\<^verbatim>\<open>cmd/probe\<close>): the sampling loop, and around it flags, requests and the finish
    endpoint. \<open>Replicactl\<close> (\<^verbatim>\<open>cmd/replicactl/main.go\<close>): the command line client, from flags and arguments to the
    call and the printed answer.

  \<^bold>\<open>How state and concurrency appear\<close>

  Stateful operations take a session and return a result and the next session. A call of the client may
  change the world arbitrarily, so every theorem over a client also covers other writers, expired
  contexts and failures between any two calls. Requests are logged in order in a ghost field; safety
  properties speak of that log. Errors are the left side of a sum or an option, in the order of the
  source's early returns. The controller's two workers, events, cancellation and other actors
  interleave as steps of \<open>run_step\<close>, the goroutines of a server as steps of \<open>live_step\<close>, and the probe's endpoint
  and loop as one sequence of events.

  \<^bold>\<open>What is shown\<close>

  \<^item> \<open>Write_Safety\<close>: a Set writes only what was requested, for the instance the guards saw, under the
    expected version, at a level that writes, and success means the count was stored.
  \<^item> \<open>Reconcile_Safety\<close>: a pass scales at most once and only under a licence of values it read; Ready is
    reported only if observed; the pass implements the decision table; unparsable intents.
  \<^item> \<open>Convergence\<close>: an accepted count reaches its Deployment after one pass if nobody interferes, and
    further passes leave it there.
  \<^item> \<open>Replica_System\<close>: every interleaving of Set requests with the controller's steps implements a specification with one
    desired and one running count per target (a simulation); the last accepted count wins.
  \<^item> \<open>Controller_Safety\<close>: serialised passes per key, balance of Get and Done, requeueing for every outcome,
    no work before the caches are filled, HPAs wake the Deployments they block.
  \<^item> \<open>Read_Views\<close>: complete and sorted listings, reads from caches send nothing, desired counts belong to the
    instance shown, and \<^verbatim>\<open>Synced\<close> waits for exactly the informers started.
  \<^item> \<open>Intent_Objects\<close>, \<open>Grpcapi\<close>, \<open>Grpc_Service\<close>: round trips of intents and messages, error codes, and that every gRPC
    method answers with exactly one of a response and an error, panics included.
  \<^item> \<open>Set_Request\<close>, \<open>Httpapi\<close>: which bytes are a request, with a round trip from requests to texts and back, exact
    counts and valid UTF-8; which REST requests may write; the answer to every body; statuses of errors; every answer of a
    handler is one JSON document, from which a client recovers the view.
  \<^item> \<open>Health\<close>, \<open>Security\<close>: readiness as a function of the history, authorisation of clients.
  \<^item> \<open>Server_Main\<close>, \<open>Server_Live\<close>: what is served under which TLS configuration, handlers registered before watches start, the
    order of draining and stopping, withdrawal of readiness on every interface in every interleaving, what losing the lease
    causes, and that shutting down terminates.
  \<^item> \<open>Monitor\<close>, \<open>Probe_Main\<close>, \<open>Replicactl\<close>, \<open>Lab_Identities\<close>: termination of the probe, what its success means, that a
    check sees the service as it is, the finish endpoint; a set command from its argument through the generated stub and handler to the writes
    of the server it reaches and the line printed; the files
    and identities of the lab.

  \<^bold>\<open>Loops and bounds\<close>

  The page loop of \<^verbatim>\<open>List\<close> is driven by the server and defined as a partial function; it is proved to
  return exactly when the server ends its pages. Retries are bounded by the retry package, for any
  number of attempts. Loops over events (\<^verbatim>\<open>health.Run\<close>, the probe's \<^verbatim>\<open>select\<close>) are recursions over the list
  of outcomes; the probe's is proved to return when its deadline fires. The JSON scanner recurses over
  the bytes, of which there are at most 4096; its nesting limit of 10000 cannot be reached within them and
  is left out. Replica counts are 32-bit and generations 64-bit words, compared as signed numbers; parsed
  numbers are unbounded until their range is checked, as the code checks it.

  \<^bold>\<open>Not modelled\<close>

  Parsing of command lines by \<^verbatim>\<open>flag\<close> and of request lines by \<^verbatim>\<open>net/http\<close> (their results are inputs), the pages \<^verbatim>\<open>net/http\<close> writes for
  redirects, the wire format of gRPC and the descriptors, reflection hooks and unused getters of the generated
  messages, logging, sockets and cryptography, and the timeouts, size and keepalive options handed to the HTTP and
  gRPC servers, which the libraries enforce. Time appears only where the code reads it; that a controller is
  elected and a queued key is eventually taken rests on client-go and is not claimed.
\<close>

end
